theory Spec2Isabelle
  imports
    Complex_Main
    "HOL-Library.Word"
    "HOL-Library.Char_ord"
    "HOL-Library.List_Lexorder"
    "HOL-Library.Sublist"
    "HOL-Library.Multiset"
begin

section \<open>bcopy: the collection pipeline\<close>

text \<open>
  A shallow embedding of the Go packages \<^verbatim>\<open>collector\<close> and \<^verbatim>\<open>analyzer\<close> of bcopy.
  A Go \<^verbatim>\<open>string\<close> is a sequence of bytes and is modelled by \<^typ>\<open>string\<close>, a list of
  8-bit characters; Go's \<^verbatim>\<open><\<close> on strings is the lexicographic order on bytes, which is
  the order \<^theory_text>\<open>List_Lexorder\<close> and \<^theory_text>\<open>Char_ord\<close> give to \<^typ>\<open>string\<close>.
  The model is written for a platform whose path separator is \<^verbatim>\<open>/\<close>.
\<close>

subsection \<open>Data model\<close>

text \<open>The errors the pipeline handles: \<^verbatim>\<open>context.Canceled\<close>, \<^verbatim>\<open>io.EOF\<close>,
  \<^verbatim>\<open>bufio.ErrTooLong\<close> and the errors of package \<^verbatim>\<open>os\<close>.\<close>

datatype error = Canceled | EOF | ErrTooLong | OSError

record FileData =
  RelPath :: string
  Content :: string
  Size :: "64 word"
  Language :: string

record CollectionResult =
  Files :: "FileData list"
  TotalSize :: "64 word"
  FileCount :: int

subsection \<open>Package strings\<close>

definition newline :: char where
  "newline = CHR 0x0A"

definition NUL :: char where
  "NUL = CHR 0x00"

definition PathSeparator :: char where
  "PathSeparator = CHR ''/''"

definition HasPrefix :: "string \<Rightarrow> string \<Rightarrow> bool" where
  "HasPrefix s p = (length s \<ge> length p \<and> take (length p) s = p)"

definition HasSuffix :: "string \<Rightarrow> string \<Rightarrow> bool" where
  "HasSuffix s p = (length s \<ge> length p \<and> drop (length s - length p) s = p)"

definition TrimPrefix :: "string \<Rightarrow> string \<Rightarrow> string" where
  "TrimPrefix s p = (if HasPrefix s p then drop (length p) s else s)"

text \<open>\<^verbatim>\<open>strings.Count(s, sep)\<close> for a separator of one byte.\<close>

definition Count :: "string \<Rightarrow> char \<Rightarrow> int" where
  "Count s c = int (count_list s c)"

text \<open>\<^verbatim>\<open>strings.TrimSpace\<close> on ASCII text: the white space of \<^verbatim>\<open>unicode.IsSpace\<close> below
  U+0080 is tab, line feed, vertical tab, form feed, carriage return and space.\<close>

definition isSpace :: "char \<Rightarrow> bool" where
  "isSpace c = (c \<in> set [CHR 0x09, CHR 0x0A, CHR 0x0B, CHR 0x0C, CHR 0x0D, CHR 0x20])"

definition TrimSpace :: "string \<Rightarrow> string" where
  "TrimSpace s = rev (dropWhile isSpace (rev (dropWhile isSpace s)))"

subsection \<open>Package filepath\<close>

text \<open>\<^verbatim>\<open>filepath.ToSlash\<close> replaces the separator by a slash: nothing to do where the
  separator is the slash.\<close>

definition ToSlash :: "string \<Rightarrow> string" where
  "ToSlash path = path"

text \<open>\<^verbatim>\<open>filepath.Ext\<close> walks back from the last byte until a separator; \<open>ext_scan\<close> is
  that loop on the reversed path, \<open>acc\<close> holding the bytes already passed.\<close>

fun ext_scan :: "string \<Rightarrow> string \<Rightarrow> string" where
  "ext_scan [] acc = []"
| "ext_scan (c # cs) acc =
     (if c = PathSeparator then []
      else if c = CHR ''.'' then c # acc
      else ext_scan cs (c # acc))"

definition Ext :: "string \<Rightarrow> string" where
  "Ext path = ext_scan (rev path) []"

text \<open>\<^verbatim>\<open>filepath.Base\<close>: the empty path gives a dot; trailing separators are stripped;
  the last element is kept; a path of separators only gives one separator.\<close>

definition Base :: "string \<Rightarrow> string" where
  "Base path =
     (if path = [] then ''.''
      else
        let stripped = rev (dropWhile (\<lambda>c. c = PathSeparator) (rev path));
            element = rev (takeWhile (\<lambda>c. c \<noteq> PathSeparator) (rev stripped))
        in if element = [] then [PathSeparator] else element)"

text \<open>\<^verbatim>\<open>filepath.Join\<close> and \<^verbatim>\<open>filepath.Rel\<close> at the calls the traversal makes: the root
  is a clean path other than \<^verbatim>\<open>/\<close>, \<open>Join\<close> adds one name of a directory listing to
  a path below the root, and \<open>Rel\<close> is asked for such a path relative to the root. For
  any other pair \<open>Rel\<close> answers \<open>None\<close> here, the branch in which the source skips the
  entry.\<close>

definition Join :: "string \<Rightarrow> string \<Rightarrow> string" where
  "Join path name = path @ [PathSeparator] @ name"

definition Rel :: "string \<Rightarrow> string \<Rightarrow> string option" where
  "Rel basepath targpath =
     (if targpath = basepath then Some ''.''
      else if HasPrefix targpath (basepath @ [PathSeparator])
      then Some (drop (length basepath + 1) targpath)
      else None)"

subsection \<open>Package regexp: the patterns the source compiles\<close>

text \<open>
  The exclusion patterns written in the source use literals, the anchors \<^verbatim>\<open>^\<close> and \<^verbatim>\<open>$\<close>,
  groups with alternatives and one optional letter. They are given here in parsed form.
  \<open>rx_run r (b, s)\<close> lists the positions the pattern can reach from one position: \<open>s\<close> is
  the text still ahead and \<open>b\<close> says that the position is the beginning of the text.
  \<open>MatchString\<close> is \<^verbatim>\<open>(*Regexp).MatchString\<close>: a match may begin anywhere.
\<close>

datatype rx = Lit string | OneOf "string list" | Bol | Eol | Alt rx rx | Seq rx rx | Opt rx

fun rx_lit :: "string \<Rightarrow> bool \<times> string \<Rightarrow> (bool \<times> string) list" where
  "rx_lit [] p = [p]"
| "rx_lit (c # cs) (b, []) = []"
| "rx_lit (c # cs) (b, d # ds) = (if c = d then rx_lit cs (False, ds) else [])"

fun rx_run :: "rx \<Rightarrow> bool \<times> string \<Rightarrow> (bool \<times> string) list" where
  "rx_run (Lit l) p = rx_lit l p"
| "rx_run (OneOf ls) p = concat (map (\<lambda>l. rx_lit l p) ls)"
| "rx_run Bol p = (if fst p then [p] else [])"
| "rx_run Eol p = (if snd p = [] then [p] else [])"
| "rx_run (Alt r1 r2) p = rx_run r1 p @ rx_run r2 p"
| "rx_run (Seq r1 r2) p = concat (map (rx_run r2) (rx_run r1 p))"
| "rx_run (Opt r) p = rx_run r p @ [p]"

fun rx_search :: "rx \<Rightarrow> bool \<Rightarrow> string \<Rightarrow> bool" where
  "rx_search r b [] = (rx_run r (b, []) \<noteq> [])"
| "rx_search r b (c # cs) = (rx_run r (b, c # cs) \<noteq> [] \<or> rx_search r False cs)"

definition MatchString :: "rx \<Rightarrow> string \<Rightarrow> bool" where
  "MatchString r s = rx_search r True s"

text \<open>\<^verbatim>\<open>(^|/)name($|/)\<close>, the shape of the directory patterns.\<close>

definition component :: "string \<Rightarrow> rx" where
  "component name = Seq (Alt Bol (Lit ''/'')) (Seq (Lit name) (Alt Eol (Lit ''/'')))"

text \<open>\<^verbatim>\<open>text$\<close>, the shape of the suffix patterns (the text with its escapes removed).\<close>

definition ending :: "string \<Rightarrow> rx" where
  "ending text = Seq (Lit text) Eol"

subsection \<open>Package glob\<close>

text \<open>
  \<^verbatim>\<open>glob.Compile(pattern, '/')\<close> of gobwas/glob: \<^verbatim>\<open>*\<close> stands for any run of bytes other
  than the separator, \<^verbatim>\<open>**\<close> for any run of bytes, \<^verbatim>\<open>?\<close> for one byte other than the
  separator, and any other byte of a plain pattern for itself. A glob matches a whole
  string.
\<close>

datatype glob_token = Text string | Any | Super | Single

fun glob_lex :: "string \<Rightarrow> glob_token list" where
  "glob_lex [] = []"
| "glob_lex [c] =
     (if c = CHR ''*'' then [Any] else if c = CHR ''?'' then [Single] else [Text [c]])"
| "glob_lex (c # d # cs) =
     (if c = CHR ''*'' \<and> d = CHR ''*'' then Super # glob_lex cs
      else if c = CHR ''*'' then Any # glob_lex (d # cs)
      else if c = CHR ''?'' then Single # glob_lex (d # cs)
      else (case glob_lex (d # cs) of
              Text t # ts \<Rightarrow> Text (c # t) # ts
            | ts \<Rightarrow> Text [c] # ts))"

fun glob_match :: "glob_token list \<Rightarrow> string \<Rightarrow> bool" where
  "glob_match [] s = (s = [])"
| "glob_match (Text t # ts) s = (HasPrefix s t \<and> glob_match ts (drop (length t) s))"
| "glob_match (Single # ts) [] = False"
| "glob_match (Single # ts) (c # cs) = (c \<noteq> PathSeparator \<and> glob_match ts cs)"
| "glob_match (Any # ts) [] = glob_match ts []"
| "glob_match (Any # ts) (c # cs) =
     (glob_match ts (c # cs) \<or> (c \<noteq> PathSeparator \<and> glob_match (Any # ts) cs))"
| "glob_match (Super # ts) [] = glob_match ts []"
| "glob_match (Super # ts) (c # cs) =
     (glob_match ts (c # cs) \<or> glob_match (Super # ts) cs)"

text \<open>The library on plain patterns. Character classes, alternatives and escapes are
  outside this instance, which rejects them; it is used at plain patterns only.\<close>

definition plain_pattern :: "string \<Rightarrow> bool" where
  "plain_pattern p =
     (\<not> list_ex (\<lambda>c. c \<in> set [CHR ''['', CHR '']'', CHR ''{'', CHR ''}'', CHR 0x5C]) p)"

definition plain_glob_Compile :: "string \<Rightarrow> (string \<Rightarrow> bool) option" where
  "plain_glob_Compile p = (if plain_pattern p then Some (glob_match (glob_lex p)) else None)"

subsection \<open>The filter\<close>

text \<open>A compiled regular expression and a compiled glob are used by the filter through
  their match functions only, so each is modelled by that function.\<close>

record Filter =
  allowedExts :: "string \<Rightarrow> bool"
  excludePatterns :: "(string \<Rightarrow> bool) list"
  gitignoreGlobs :: "(string \<Rightarrow> bool) list"
  respectGitignore :: bool
  excludeTests :: bool

definition defaultExts :: "string list" where
  "defaultExts =
     [''.go'', ''.py'', ''.js'', ''.jsx'', ''.ts'', ''.tsx'', ''.vue'', ''.svelte'', ''.mjs'',
      ''.cjs'',
      ''.yaml'', ''.yml'', ''.json'', ''.toml'', ''.md'', ''.txt'', ''.sh'', ''.bash'',
      ''.c'', ''.cpp'', ''.h'', ''.hpp'', ''.rs'', ''.java'', ''.rb'', ''.php'', ''.swift'',
      ''.kt'']"

text \<open>The list \<^verbatim>\<open>alwaysExclude\<close>, in the order of the source.\<close>

definition alwaysExclude :: "rx list" where
  "alwaysExclude =
     [component ''node_modules'',
      component ''venv'',
      component ''.venv'',
      component ''__pycache__'',
      component ''.git'',
      component ''dist'',
      component ''build'',
      component ''.egg-info'',
      component ''.tox'',
      component ''coverage'',
      component ''.next'',
      component ''vendor'',
      component ''bin'',
      component ''tmp'',
      ending ''.lock'',
      ending ''-lock.json'',
      ending ''-lock.yaml'',
      ending ''Pipfile.lock'',
      ending ''.gitignore'',
      ending ''.exe'',
      ending ''.so'',
      ending ''.dylib'',
      ending ''.dll'',
      ending ''_templ.go'',
      Seq (Lit ''.'')
        (Seq (OneOf [''jpg'', ''jpeg'', ''png'', ''gif'', ''bmp'', ''svg'', ''ico'', ''webp'',
                     ''tiff'', ''tif'', ''psd'', ''raw'', ''heic'', ''avif'']) Eol),
      ending ''.pyc'',
      ending ''.pyo'',
      ending ''.pyd'',
      ending ''.egg'',
      component ''.eggs'',
      component ''.pytest_cache'',
      component ''.mypy_cache'',
      ending ''.pb.go'',
      ending ''_gen.go'',
      ending ''.min.js'',
      ending ''.bundle.js'',
      Lit ''.eslintcache'',
      component ''.nyc_output'',
      component ''.yarn'',
      component ''.npm'',
      component ''cypress'',
      component ''jest-cache'']"

text \<open>The list \<^verbatim>\<open>testPatterns\<close>: \<^verbatim>\<open>_test\.go$\<close>, \<^verbatim>\<open>(^|/)tests?($|/)\<close>,
  \<^verbatim>\<open>\.test\.(js|ts|jsx|tsx)$\<close> and \<^verbatim>\<open>\.spec\.(js|ts|jsx|tsx)$\<close>.\<close>

definition testPatterns :: "rx list" where
  "testPatterns =
     [ending ''_test.go'',
      Seq (Alt Bol (Lit ''/'')) (Seq (Lit ''test'') (Seq (Opt (Lit ''s'')) (Alt Eol (Lit ''/'')))),
      Seq (Lit ''.test.'') (Seq (OneOf [''js'', ''ts'', ''jsx'', ''tsx'']) Eol),
      Seq (Lit ''.spec.'') (Seq (OneOf [''js'', ''ts'', ''jsx'', ''tsx'']) Eol)]"

text \<open>A pattern handed to \<^verbatim>\<open>regexp.Compile\<close>: one of the source's own, in parsed form,
  which compiles, or a caller's pattern as text, for which the library \<open>lib\<close> decides.\<close>

datatype pattern = Parsed rx | Custom string

fun Compile :: "(string \<Rightarrow> (string \<Rightarrow> bool) option) \<Rightarrow> pattern \<Rightarrow> (string \<Rightarrow> bool) option" where
  "Compile lib (Parsed r) = Some (MatchString r)"
| "Compile lib (Custom text) = lib text"

text \<open>The loop that compiles the patterns and keeps those that compile.\<close>

fun compile_loop ::
  "(string \<Rightarrow> (string \<Rightarrow> bool) option) \<Rightarrow> pattern list \<Rightarrow> (string \<Rightarrow> bool) list
   \<Rightarrow> (string \<Rightarrow> bool) list" where
  "compile_loop lib [] acc = acc"
| "compile_loop lib (pat # pats) acc =
     (case Compile lib pat of
        Some re \<Rightarrow> compile_loop lib pats (acc @ [re])
      | None \<Rightarrow> compile_loop lib pats acc)"

text \<open>The loops that fill the map \<^verbatim>\<open>allowedExts\<close>.\<close>

fun ext_loop :: "string list \<Rightarrow> (string \<Rightarrow> bool) \<Rightarrow> (string \<Rightarrow> bool)" where
  "ext_loop [] m = m"
| "ext_loop (ext # exts) m =
     (let ext' = (if \<not> HasPrefix ext ''.'' then ''.'' @ ext else ext)
      in ext_loop exts (m(ext' := True)))"

fun default_ext_loop :: "string list \<Rightarrow> (string \<Rightarrow> bool) \<Rightarrow> (string \<Rightarrow> bool)" where
  "default_ext_loop [] m = m"
| "default_ext_loop (ext # exts) m = default_ext_loop exts (m(ext := True))"

definition NewFilter ::
  "(string \<Rightarrow> (string \<Rightarrow> bool) option) \<Rightarrow> string list \<Rightarrow> string list \<Rightarrow> bool \<Rightarrow> bool \<Rightarrow> Filter" where
  "NewFilter regexp_Compile allowedExts_arg customExcludes respectGitignore_arg excludeTests_arg =
     (let exts = (if length allowedExts_arg = 0 then default_ext_loop defaultExts (\<lambda>_. False)
                  else ext_loop allowedExts_arg (\<lambda>_. False));
          allPatterns0 = map Parsed alwaysExclude;
          allPatterns1 = (if excludeTests_arg then allPatterns0 @ map Parsed testPatterns
                          else allPatterns0);
          allPatterns = allPatterns1 @ map Custom customExcludes
      in \<lparr>allowedExts = exts,
          excludePatterns = compile_loop regexp_Compile allPatterns [],
          gitignoreGlobs = [],
          respectGitignore = respectGitignore_arg,
          excludeTests = excludeTests_arg\<rparr>)"

text \<open>
  \<^verbatim>\<open>LoadGitignore\<close>. The ignore file is \<open>None\<close> when it cannot be opened; otherwise it is
  the lines the scanner delivers and the error the scanner ends with. \<open>glob_Compile\<close> is
  the glob library.
\<close>

fun gitignore_loop ::
  "(string \<Rightarrow> (string \<Rightarrow> bool) option) \<Rightarrow> string list \<Rightarrow> Filter \<Rightarrow> Filter" where
  "gitignore_loop glob_Compile [] f = f"
| "gitignore_loop glob_Compile (text # rest) f =
     (let line = TrimSpace text in
      if line = [] \<or> HasPrefix line ''#'' then gitignore_loop glob_Compile rest f
      else if HasPrefix line ''!'' then gitignore_loop glob_Compile rest f
      else
        let pattern1 = (if HasSuffix line ''/'' then line @ ''**'' else line);
            pattern2 = (if HasPrefix pattern1 ''/'' then TrimPrefix pattern1 ''/''
                        else ''**/'' @ pattern1)
        in (case glob_Compile pattern2 of
              Some g \<Rightarrow>
                gitignore_loop glob_Compile rest (f\<lparr>gitignoreGlobs := gitignoreGlobs f @ [g]\<rparr>)
            | None \<Rightarrow> gitignore_loop glob_Compile rest f))"

definition LoadGitignore ::
  "(string \<Rightarrow> (string \<Rightarrow> bool) option) \<Rightarrow> (string list \<times> error option) option \<Rightarrow> Filter
   \<Rightarrow> Filter \<times> error option" where
  "LoadGitignore glob_Compile file f =
     (if \<not> respectGitignore f then (f, None)
      else (case file of
              None \<Rightarrow> (f, None)
            | Some (lines, scanner_Err) \<Rightarrow> (gitignore_loop glob_Compile lines f, scanner_Err)))"

text \<open>\<^verbatim>\<open>ShouldInclude\<close>. The two loops return at the first match.\<close>

fun match_loop :: "(string \<Rightarrow> bool) list \<Rightarrow> string \<Rightarrow> bool" where
  "match_loop [] path = False"
| "match_loop (m # ms) path = (if m path then True else match_loop ms path)"

definition commonNoExtFiles :: "string \<Rightarrow> bool" where
  "commonNoExtFiles filename =
     (filename \<in> set [''Makefile'', ''Dockerfile'', ''Rakefile'',
                       ''Gemfile'', ''Procfile'', ''Vagrantfile''])"

definition ShouldInclude :: "Filter \<Rightarrow> string \<Rightarrow> bool" where
  "ShouldInclude f path_arg =
     (let path = ToSlash path_arg in
      if match_loop (excludePatterns f) path then False
      else if respectGitignore f \<and> match_loop (gitignoreGlobs f) path then False
      else
        let ext = Ext path;
            filename = Base path
        in if ext = [] then commonNoExtFiles filename
           else if \<not> allowedExts f ext then False
           else True)"

subsection \<open>The file system\<close>

text \<open>
  What \<^verbatim>\<open>filepath.WalkDir\<close> meets below the root: regular files, symbolic links, which
  it reports and does not follow, and directories. A directory carries what
  \<^verbatim>\<open>os.ReadDir\<close> answers for it: whether it reports an error, and the entries it lists.
\<close>

datatype node = File | Symlink | Dir bool "(string \<times> node) list"

fun IsDir :: "node \<Rightarrow> bool" where
  "IsDir (Dir readErr entries) = True"
| "IsDir n = False"

fun IsSymlink :: "node \<Rightarrow> bool" where
  "IsSymlink Symlink = True"
| "IsSymlink n = False"

text \<open>
  What the calls of one worker on one path answer: \<^verbatim>\<open>os.Open\<close>, the single
  \<^verbatim>\<open>file.Read\<close> into the buffer of 8192 bytes (the bytes \<^verbatim>\<open>buf[:n]\<close> and the error),
  \<^verbatim>\<open>os.Stat\<close> with the size it reports, and \<^verbatim>\<open>os.ReadFile\<close>.
\<close>

record os_view =
  open_err :: "error option"
  first_read :: "string \<times> error option"
  stat_res :: "error + 64 word"
  readfile_res :: "error + string"

text \<open>A readable regular file that does not change while it is collected: a read at the
  end of the file answers no byte and \<^verbatim>\<open>io.EOF\<close>, otherwise it fills the buffer as far
  as the content reaches.\<close>

definition regular_file :: "string \<Rightarrow> os_view" where
  "regular_file content =
     \<lparr>open_err = None,
      first_read = (if content = [] then ([], Some EOF) else (take 8192 content, None)),
      stat_res = Inr (word_of_nat (length content)),
      readfile_res = Inr content\<rparr>"

text \<open>
  The file system: the tree below the root (\<open>None\<close> when \<^verbatim>\<open>os.Lstat\<close> of the root
  fails), \<^verbatim>\<open>filepath.EvalSymlinks\<close> (\<open>None\<close> when it fails), whether \<^verbatim>\<open>os.Stat\<close> of a
  path succeeds and reports a directory, and the view the workers have of each path.
\<close>

record filesystem =
  tree :: "node option"
  EvalSymlinks :: "string \<Rightarrow> string option"
  stat_IsDir :: "string \<Rightarrow> bool"
  file_at :: "string \<Rightarrow> os_view"

text \<open>
  What a directory listing is like: the names are not empty, hold no separator and differ
  from one another, here and in every directory below. \<open>count_dirs\<close> is the number of
  directories of a tree.
\<close>

definition name_ok :: "string \<Rightarrow> bool" where
  "name_ok name = (name \<noteq> [] \<and> PathSeparator \<notin> set name)"

fun listing_ok :: "node \<Rightarrow> bool"
and entries_ok :: "(string \<times> node) list \<Rightarrow> bool" where
  "listing_ok File = True"
| "listing_ok Symlink = True"
| "listing_ok (Dir readErr entries) =
     (distinct (map fst entries) \<and> list_all name_ok (map fst entries) \<and> entries_ok entries)"
| "entries_ok [] = True"
| "entries_ok ((name, n) # rest) = (listing_ok n \<and> entries_ok rest)"

fun count_dirs :: "node \<Rightarrow> nat"
and count_dirs_entries :: "(string \<times> node) list \<Rightarrow> nat" where
  "count_dirs File = 0"
| "count_dirs Symlink = 0"
| "count_dirs (Dir readErr entries) = 1 + count_dirs_entries entries"
| "count_dirs_entries [] = 0"
| "count_dirs_entries ((name, n) # rest) = count_dirs n + count_dirs_entries rest"

definition tree_ok :: "filesystem \<Rightarrow> bool" where
  "tree_ok fs = (case tree fs of None \<Rightarrow> True | Some n \<Rightarrow> listing_ok n)"

subsection \<open>The traversal\<close>

record fileJob =
  fullPath :: string
  relPath :: string

text \<open>The variables the callback of \<^verbatim>\<open>WalkDir\<close> writes, \<^verbatim>\<open>fileJobs\<close> and
  \<^verbatim>\<open>visitedDirs\<close>, and a log of the directories \<^verbatim>\<open>WalkDir\<close> has listed, which the
  source does not keep.\<close>

record walk_state =
  fileJobs :: "fileJob list"
  visitedDirs :: "string \<Rightarrow> bool"
  listed :: "string list"

text \<open>What the callback returns: \<^verbatim>\<open>nil\<close> or \<^verbatim>\<open>filepath.SkipDir\<close>.\<close>

datatype walk_ctl = Continue | SkipDir

text \<open>The callback from the computation of the relative path on.\<close>

definition visit_entry ::
  "string \<Rightarrow> Filter \<Rightarrow> int \<Rightarrow> walk_state \<Rightarrow> string \<Rightarrow> node \<Rightarrow> walk_ctl \<times> walk_state" where
  "visit_entry rootPath filter_arg maxDepth st path d =
     (case Rel rootPath path of
        None \<Rightarrow> (Continue, st)
      | Some rel \<Rightarrow>
          if IsDir d then
            (if rel \<noteq> ''.'' then
               (let depth = Count rel PathSeparator + 1 in
                if maxDepth > 0 \<and> depth > maxDepth then (SkipDir, st)
                else if \<not> ShouldInclude filter_arg (rel @ ''/dummy.go'') then (SkipDir, st)
                else (Continue, st))
             else (Continue, st))
          else if \<not> ShouldInclude filter_arg rel then (Continue, st)
          else (Continue, st\<lparr>fileJobs := fileJobs st @ [\<lparr>fullPath = path, relPath = rel\<rparr>]\<rparr>))"

text \<open>The callback. The entry \<open>d\<close> is \<open>None\<close> only when \<^verbatim>\<open>WalkDir\<close> could not stat the
  root, and then the error is set.\<close>

definition walkFn ::
  "filesystem \<Rightarrow> string \<Rightarrow> Filter \<Rightarrow> int \<Rightarrow> walk_state \<Rightarrow> string \<Rightarrow> node option \<Rightarrow> error option
   \<Rightarrow> walk_ctl \<times> walk_state" where
  "walkFn fs rootPath filter_arg maxDepth st path entry err =
     (if err \<noteq> None then (Continue, st)
      else (case entry of
              None \<Rightarrow> (Continue, st)
            | Some d \<Rightarrow>
                if IsSymlink d then
                  (case EvalSymlinks fs path of
                     None \<Rightarrow> (Continue, st)
                   | Some realPath \<Rightarrow>
                       if visitedDirs st realPath then (SkipDir, st)
                       else
                         let st' = (if stat_IsDir fs realPath
                                    then st\<lparr>visitedDirs := (visitedDirs st)(realPath := True)\<rparr>
                                    else st)
                         in visit_entry rootPath filter_arg maxDepth st' path d)
                else visit_entry rootPath filter_arg maxDepth st path d))"

text \<open>
  \<^verbatim>\<open>filepath.WalkDir\<close> of the Go library. \<open>walkDir\<close> calls the callback on an entry; it
  goes on into a directory for which the callback returned \<^verbatim>\<open>nil\<close>, calls the callback
  once more when the directory cannot be read, and walks the entries listed.
  \<^verbatim>\<open>SkipDir\<close> returned for a directory skips that directory; returned for another entry
  it ends the loop over the directory that holds the entry.
\<close>

fun walkDir ::
  "(walk_state \<Rightarrow> string \<Rightarrow> node option \<Rightarrow> error option \<Rightarrow> walk_ctl \<times> walk_state)
   \<Rightarrow> string \<Rightarrow> node \<Rightarrow> walk_state \<Rightarrow> walk_ctl \<times> walk_state"
and walkEntries ::
  "(walk_state \<Rightarrow> string \<Rightarrow> node option \<Rightarrow> error option \<Rightarrow> walk_ctl \<times> walk_state)
   \<Rightarrow> string \<Rightarrow> (string \<times> node) list \<Rightarrow> walk_state \<Rightarrow> walk_state" where
  "walkDir fn path File st = fn st path (Some File) None"
| "walkDir fn path Symlink st = fn st path (Some Symlink) None"
| "walkDir fn path (Dir readErr entries) st =
     (case fn st path (Some (Dir readErr entries)) None of
        (SkipDir, st1) \<Rightarrow> (Continue, st1)
      | (Continue, st1) \<Rightarrow>
          (let st2 = st1\<lparr>listed := listed st1 @ [path]\<rparr> in
           if readErr then
             (case fn st2 path (Some (Dir readErr entries)) (Some OSError) of
                (SkipDir, st3) \<Rightarrow> (Continue, st3)
              | (Continue, st3) \<Rightarrow> (Continue, walkEntries fn path entries st3))
           else (Continue, walkEntries fn path entries st2)))"
| "walkEntries fn path [] st = st"
| "walkEntries fn path ((name, n) # rest) st =
     (case walkDir fn (Join path name) n st of
        (SkipDir, st1) \<Rightarrow> st1
      | (Continue, st1) \<Rightarrow> walkEntries fn path rest st1)"

text \<open>\<^verbatim>\<open>WalkDir\<close> returns \<^verbatim>\<open>nil\<close> whether the walk ended with \<^verbatim>\<open>nil\<close> or with
  \<^verbatim>\<open>SkipDir\<close>.\<close>

definition WalkDir ::
  "filesystem \<Rightarrow> string
   \<Rightarrow> (walk_state \<Rightarrow> string \<Rightarrow> node option \<Rightarrow> error option \<Rightarrow> walk_ctl \<times> walk_state)
   \<Rightarrow> walk_state \<Rightarrow> error option \<times> walk_state" where
  "WalkDir fs root_arg fn st =
     (case tree fs of
        None \<Rightarrow> (case fn st root_arg None (Some OSError) of (ctl, st1) \<Rightarrow> (None, st1))
      | Some n \<Rightarrow> (case walkDir fn root_arg n st of (ctl, st1) \<Rightarrow> (None, st1)))"

text \<open>The first part of \<^verbatim>\<open>Collect\<close>: the traversal that fills \<^verbatim>\<open>fileJobs\<close>.\<close>

definition enumerate_jobs ::
  "filesystem \<Rightarrow> string \<Rightarrow> Filter \<Rightarrow> int \<Rightarrow> error option \<times> walk_state" where
  "enumerate_jobs fs rootPath filter_arg maxDepth =
     WalkDir fs rootPath (walkFn fs rootPath filter_arg maxDepth)
       \<lparr>fileJobs = [], visitedDirs = (\<lambda>_. False), listed = []\<rparr>"

subsection \<open>The workers\<close>

definition isBinaryFile :: "(string \<Rightarrow> os_view) \<Rightarrow> string \<Rightarrow> bool \<times> error option" where
  "isBinaryFile files filePath =
     (case open_err (files filePath) of
        Some e \<Rightarrow> (False, Some e)
      | None \<Rightarrow>
          (case first_read (files filePath) of
             (chunk, read_err) \<Rightarrow>
               if read_err \<noteq> None \<and> length chunk = 0 then (False, read_err)
               else (NUL \<in> set chunk, None)))"

definition noExtMap :: "(string \<times> string) list" where
  "noExtMap =
     [(''Makefile'', ''makefile''),
      (''Dockerfile'', ''dockerfile''),
      (''Rakefile'', ''ruby''),
      (''Gemfile'', ''ruby''),
      (''Procfile'', ''yaml''),
      (''Vagrantfile'', ''ruby''),
      (''Cargo'', ''toml'')]"

definition languageMap :: "(string \<times> string) list" where
  "languageMap =
     [(''.go'', ''go''), (''.py'', ''python''), (''.js'', ''javascript''), (''.jsx'', ''jsx''),
      (''.ts'', ''typescript''), (''.tsx'', ''tsx''), (''.vue'', ''vue''),
      (''.svelte'', ''svelte''), (''.mjs'', ''javascript''), (''.cjs'', ''javascript''),
      (''.rs'', ''rust''), (''.java'', ''java''), (''.c'', ''c''), (''.cpp'', ''cpp''),
      (''.cc'', ''cpp''), (''.cxx'', ''cpp''), (''.h'', ''c''), (''.hpp'', ''cpp''),
      (''.hh'', ''cpp''), (''.cs'', ''csharp''), (''.rb'', ''ruby''), (''.php'', ''php''),
      (''.swift'', ''swift''), (''.kt'', ''kotlin''), (''.kts'', ''kotlin''),
      (''.scala'', ''scala''), (''.sh'', ''bash''), (''.bash'', ''bash''), (''.zsh'', ''zsh''),
      (''.fish'', ''fish''), (''.yaml'', ''yaml''), (''.yml'', ''yaml''), (''.json'', ''json''),
      (''.xml'', ''xml''), (''.html'', ''html''), (''.htm'', ''html''), (''.css'', ''css''),
      (''.scss'', ''scss''), (''.sass'', ''sass''), (''.less'', ''less''),
      (''.md'', ''markdown''), (''.markdown'', ''markdown''), (''.sql'', ''sql''),
      (''.toml'', ''toml''), (''.ini'', ''ini''), (''.conf'', ''conf''), (''.env'', ''bash''),
      (''.txt'', ''text''), (''.dockerfile'', ''dockerfile''), (''.pl'', ''perl''),
      (''.pm'', ''perl''), (''.lua'', ''lua''), (''.vim'', ''vim''), (''.ex'', ''elixir''),
      (''.exs'', ''elixir''), (''.erl'', ''erlang''), (''.hrl'', ''erlang''),
      (''.clj'', ''clojure''), (''.cljs'', ''clojure''), (''.dart'', ''dart''), (''.r'', ''r''),
      (''.R'', ''r''), (''.m'', ''objective-c''), (''.mm'', ''objective-c''),
      (''.groovy'', ''groovy''), (''.gradle'', ''gradle''), (''.tf'', ''terraform''),
      (''.hcl'', ''hcl'')]"

definition getLanguage :: "string \<Rightarrow> string" where
  "getLanguage filename =
     (let base = Base filename;
          ext = Ext filename
      in if ext = [] then
           (case map_of noExtMap base of Some lang \<Rightarrow> lang | None \<Rightarrow> [])
         else (case map_of languageMap ext of Some lang \<Rightarrow> lang | None \<Rightarrow> []))"

text \<open>A message on \<^verbatim>\<open>resultsChan\<close>.\<close>

record fileResult =
  data :: FileData
  err :: "error option"

definition no_data :: FileData where
  "no_data = \<lparr>RelPath = [], Content = [], Size = 0, Language = []\<rparr>"

text \<open>
  The conversion \<^verbatim>\<open>float64(info.Size())\<close> of a 64-bit integer. A \<^verbatim>\<open>float64\<close> holds 53
  significant bits: an integer below \<open>2 ^ 53\<close> in absolute value is converted exactly, a
  larger one is rounded to the nearest multiple of the power of two \<open>float64_ulp\<close> that
  leaves 53 bits, and of two nearest multiples the even one is taken. The value of the
  \<^verbatim>\<open>float64\<close> is given as a real number.
\<close>

fun float64_ulp :: "nat \<Rightarrow> nat" where
  "float64_ulp n = (if n < 2 ^ 53 then 1 else 2 * float64_ulp (n div 2))"

declare float64_ulp.simps [simp del]

definition round_half_even :: "nat \<Rightarrow> nat \<Rightarrow> nat" where
  "round_half_even n u =
     (let q = n div u; r = n mod u
      in if 2 * r < u then q * u
         else if 2 * r > u then (q + 1) * u
         else if even q then q * u
         else (q + 1) * u)"

definition float64_of_int :: "int \<Rightarrow> real" where
  "float64_of_int k =
     (if k < 0 then - real (round_half_even (nat (- k)) (float64_ulp (nat (- k))))
      else real (round_half_even (nat k) (float64_ulp (nat k))))"

text \<open>
  The function a worker goroutine runs for one job. \<open>ctx_done\<close> says whether the
  \<^verbatim>\<open>select\<close> at its start finds the context of the group done; the error of that context
  is \<^verbatim>\<open>context.Canceled\<close>. The result is the message the worker sends on
  \<^verbatim>\<open>resultsChan\<close>, if it sends one, and the error it returns to the group. The size is
  converted to \<^verbatim>\<open>float64\<close> as above; the division by \<open>2 ^ 20\<close> that follows is exact in
  \<^verbatim>\<open>float64\<close>, and so are the two comparisons. The limit is the real number a finite
  \<^verbatim>\<open>float64\<close> stands for; an infinite limit decides as a limit that no size reaches, and
  a limit that is not a number decides as the limit 0.
\<close>

definition worker ::
  "(string \<Rightarrow> os_view) \<Rightarrow> real \<Rightarrow> bool \<Rightarrow> fileJob \<Rightarrow> fileResult option \<times> error option" where
  "worker files maxFileSizeMB ctx_done job =
     (if ctx_done then (None, Some Canceled)
      else
        (case isBinaryFile files (fullPath job) of
           (isBinary, bin_err) \<Rightarrow>
             if bin_err \<noteq> None \<or> isBinary then (None, None)
             else
               (case stat_res (files (fullPath job)) of
                  Inl e \<Rightarrow> (Some \<lparr>data = no_data, err = Some e\<rparr>, None)
                | Inr info_Size \<Rightarrow>
                    (let fileSizeMB = float64_of_int (sint info_Size) / (1024 * 1024) in
                     if maxFileSizeMB > 0 \<and> fileSizeMB > maxFileSizeMB then (None, None)
                     else
                       (case readfile_res (files (fullPath job)) of
                          Inl e \<Rightarrow> (Some \<lparr>data = no_data, err = Some e\<rparr>, None)
                        | Inr content \<Rightarrow>
                            (Some \<lparr>data = \<lparr>RelPath = relPath job,
                                           Content = content,
                                           Size = info_Size,
                                           Language = getLanguage (relPath job)\<rparr>,
                                   err = None\<rparr>,
                             None))))))"

subsection \<open>Collect\<close>

text \<open>
  How one run is scheduled. Instants are natural numbers. \<open>cancelAt\<close> is the instant at
  which the caller's context is cancelled, if it is; \<open>checkAt i\<close> is the instant at which
  the worker of job \<open>i\<close> executes the \<^verbatim>\<open>select\<close> at its start, and \<open>finishAt i\<close> the instant
  at which it returns; \<open>arrival\<close> lists the jobs in the order in which their workers reach
  \<^verbatim>\<open>resultsChan\<close>.
\<close>

record schedule =
  cancelAt :: "nat option"
  checkAt :: "nat \<Rightarrow> nat"
  finishAt :: "nat \<Rightarrow> nat"
  arrival :: "nat list"

text \<open>The \<^verbatim>\<open>select\<close> of worker \<open>i\<close> finds the context done when the cancellation is not
  later than the \<^verbatim>\<open>select\<close>.\<close>

definition ctx_done_at :: "schedule \<Rightarrow> nat \<Rightarrow> bool" where
  "ctx_done_at S i = (case cancelAt S of None \<Rightarrow> False | Some t \<Rightarrow> t \<le> checkAt S i)"

text \<open>The batch of \<open>n\<close> jobs is in progress at an instant when a worker has started and a
  worker has not yet returned.\<close>

definition in_progress :: "schedule \<Rightarrow> nat \<Rightarrow> nat \<Rightarrow> bool" where
  "in_progress S n t =
     (list_ex (\<lambda>i. checkAt S i \<le> t) [0..<n] \<and> list_ex (\<lambda>i. t < finishAt S i) [0..<n])"

text \<open>A schedule for \<open>n\<close> jobs: every worker checks before it returns, and every job
  arrives once.\<close>

definition schedule_ok :: "schedule \<Rightarrow> nat \<Rightarrow> bool" where
  "schedule_ok S n =
     (list_all (\<lambda>i. checkAt S i < finishAt S i) [0..<n] \<and> mset (arrival S) = mset [0..<n])"

text \<open>The messages on \<^verbatim>\<open>resultsChan\<close>, in the order of arrival.\<close>

fun channel :: "(nat \<Rightarrow> fileResult option) \<Rightarrow> nat \<Rightarrow> nat list \<Rightarrow> fileResult list" where
  "channel sent n [] = []"
| "channel sent n (i # rest) =
     (if i < n then (case sent i of Some m \<Rightarrow> m # channel sent n rest
                     | None \<Rightarrow> channel sent n rest)
      else channel sent n rest)"

text \<open>The loop that drains \<^verbatim>\<open>resultsChan\<close>.\<close>

fun aggregate :: "fileResult list \<Rightarrow> CollectionResult \<Rightarrow> CollectionResult" where
  "aggregate [] result = result"
| "aggregate (res # rest) result =
     (if err res \<noteq> None then aggregate rest result
      else aggregate rest
             (result\<lparr>Files := Files result @ [data res],
                     TotalSize := TotalSize result + Size (data res)\<rparr>))"

text \<open>\<^verbatim>\<open>eg.Wait\<close>: the first error a worker returned, if any.\<close>

fun eg_Wait :: "error option list \<Rightarrow> error option" where
  "eg_Wait [] = None"
| "eg_Wait (None # rest) = eg_Wait rest"
| "eg_Wait (Some e # rest) = Some e"

text \<open>
  \<^verbatim>\<open>Collect\<close>. \<^verbatim>\<open>sort.Slice\<close> with the comparison of \<^verbatim>\<open>RelPath\<close> is modelled by
  \<open>sort_key RelPath\<close>; the library promises a permutation in which no record stands
  before one with a smaller \<^verbatim>\<open>RelPath\<close>, and nothing about records with equal keys.
  What the source writes to the terminal is left out.
\<close>

definition Collect ::
  "schedule \<Rightarrow> filesystem \<Rightarrow> string \<Rightarrow> Filter \<Rightarrow> int \<Rightarrow> real \<Rightarrow> error + CollectionResult" where
  "Collect S fs rootPath filter_arg maxDepth maxFileSizeMB =
     (case enumerate_jobs fs rootPath filter_arg maxDepth of
        (Some e, st) \<Rightarrow> Inl e
      | (None, st) \<Rightarrow>
          (let jobs = fileJobs st;
               run = (\<lambda>i. worker (file_at fs) maxFileSizeMB (ctx_done_at S i) (jobs ! i));
               resultsChan = channel (\<lambda>i. fst (run i)) (length jobs) (arrival S);
               result = aggregate resultsChan \<lparr>Files = [], TotalSize = 0, FileCount = 0\<rparr>
           in (case eg_Wait (map (\<lambda>i. snd (run i)) [0..<length jobs]) of
                 Some e \<Rightarrow> Inl e
               | None \<Rightarrow>
                   (let sorted_files = sort_key RelPath (Files result)
                    in Inr (result\<lparr>Files := sorted_files,
                                   FileCount := int (length sorted_files)\<rparr>)))))"

subsection \<open>Rendering\<close>

text \<open>
  \<^verbatim>\<open>FormatAsMarkdown\<close>: the loop over \<^verbatim>\<open>result.Files\<close> with its index \<open>i\<close>, the
  length \<open>n\<close> of the slice and the contents \<open>sb\<close> of the \<^verbatim>\<open>strings.Builder\<close>.
\<close>

fun format_loop :: "int \<Rightarrow> int \<Rightarrow> FileData list \<Rightarrow> string \<Rightarrow> string" where
  "format_loop n i [] sb = sb"
| "format_loop n i (file # rest) sb =
     (let sb1 = sb @ (''File: ./'' @ RelPath file @ [newline, newline]);
          sb2 = sb1 @ (''```'' @ Language file @ [newline]);
          sb3 = sb2 @ Content file;
          sb4 = (if \<not> HasSuffix (Content file) [newline] then sb3 @ [newline] else sb3);
          sb5 = sb4 @ (''```'' @ [newline]);
          sb6 = (if i < n - 1 then sb5 @ ([newline] @ ''---'' @ [newline, newline]) else sb5)
      in format_loop n (i + 1) rest sb6)"

definition FormatAsMarkdown :: "CollectionResult \<Rightarrow> string" where
  "FormatAsMarkdown result = format_loop (int (length (Files result))) 0 (Files result) []"

text \<open>The format as the specification words it: the text between the fences, the block of
  one file, and the blocks joined by the separator.\<close>

definition fenced_body :: "FileData \<Rightarrow> string" where
  "fenced_body f = (if Content f \<noteq> [] \<and> last (Content f) = newline then Content f
                    else Content f @ [newline])"

definition file_block :: "FileData \<Rightarrow> string" where
  "file_block f =
     ''File: ./'' @ RelPath f @ [newline] @ [newline] @
     ''```'' @ Language f @ [newline] @
     fenced_body f @
     ''```'' @ [newline]"

definition separator :: string where
  "separator = [newline] @ ''---'' @ [newline] @ [newline]"

fun join_blocks :: "string list \<Rightarrow> string" where
  "join_blocks [] = []"
| "join_blocks [b] = b"
| "join_blocks (b # c # bs) = b @ separator @ join_blocks (c # bs)"

text \<open>The number of newlines a text ends with.\<close>

definition trailing_newlines :: "string \<Rightarrow> nat" where
  "trailing_newlines s = length (takeWhile (\<lambda>c. c = newline) (rev s))"

subsection \<open>Example inputs\<close>

text \<open>A result with one record, whose content ends with two newlines.\<close>

definition two_newlines :: CollectionResult where
  "two_newlines =
     \<lparr>Files = [\<lparr>RelPath = ''a.txt'', Content = ''x'' @ [newline, newline], Size = 3,
                 Language = ''text''\<rparr>],
      TotalSize = 3, FileCount = 1\<rparr>"

text \<open>The filter \<^verbatim>\<open>cmd/bcopy\<close> builds when no flag is given and no ignore file is loaded.
  No caller's pattern is compiled, so the regular expression library is not asked.\<close>

definition default_filter :: Filter where
  "default_filter = NewFilter (\<lambda>text. None) [] [] True False"

text \<open>A path at which there is no file: every call fails.\<close>

definition no_file :: os_view where
  "no_file =
     \<lparr>open_err = Some OSError, first_read = ([], Some OSError),
      stat_res = Inl OSError, readfile_res = Inl OSError\<rparr>"

text \<open>The tree \<^verbatim>\<open>root/a.txt\<close>, \<^verbatim>\<open>root/sub/b.txt\<close>.\<close>

definition two_files :: filesystem where
  "two_files =
     \<lparr>tree = Some (Dir False [(''a.txt'', File), (''sub'', Dir False [(''b.txt'', File)])]),
      EvalSymlinks = (\<lambda>path. None),
      stat_IsDir = (\<lambda>path. False),
      file_at = (\<lambda>path. if path = ''root/a.txt'' then regular_file ''hello''
                        else if path = ''root/sub/b.txt'' then regular_file ''hi''
                        else no_file)\<rparr>"

text \<open>A run that is not cancelled and in which the second worker is the first to send.\<close>

definition second_first :: schedule where
  "second_first =
     \<lparr>cancelAt = None, checkAt = (\<lambda>i. i), finishAt = (\<lambda>i. i + 2), arrival = [1, 0]\<rparr>"

text \<open>What \<^verbatim>\<open>Collect\<close> returns for these.\<close>

definition two_files_result :: CollectionResult where
  "two_files_result =
     \<lparr>Files = [\<lparr>RelPath = ''a.txt'', Content = ''hello'', Size = 5, Language = ''text''\<rparr>,
               \<lparr>RelPath = ''sub/b.txt'', Content = ''hi'', Size = 2, Language = ''text''\<rparr>],
      TotalSize = 7, FileCount = 2\<rparr>"

text \<open>The same tree with \<^verbatim>\<open>root/a.txt\<close> empty.\<close>

definition empty_and_text :: filesystem where
  "empty_and_text =
     \<lparr>tree = Some (Dir False [(''a.txt'', File), (''sub'', Dir False [(''b.txt'', File)])]),
      EvalSymlinks = (\<lambda>path. None),
      stat_IsDir = (\<lambda>path. False),
      file_at = (\<lambda>path. if path = ''root/a.txt'' then regular_file []
                        else if path = ''root/sub/b.txt'' then regular_file ''hi''
                        else no_file)\<rparr>"

definition empty_and_text_result :: CollectionResult where
  "empty_and_text_result =
     \<lparr>Files = [\<lparr>RelPath = ''sub/b.txt'', Content = ''hi'', Size = 2, Language = ''text''\<rparr>],
      TotalSize = 2, FileCount = 1\<rparr>"

text \<open>The same tree at a moment when \<^verbatim>\<open>os.Stat\<close> reports \<open>2 ^ 53 + 1\<close> bytes for
  \<^verbatim>\<open>root/a.txt\<close> and the read of the whole file, made later, returns one byte.\<close>

definition size_over_2_53 :: filesystem where
  "size_over_2_53 =
     \<lparr>tree = Some (Dir False [(''a.txt'', File), (''sub'', Dir False [(''b.txt'', File)])]),
      EvalSymlinks = (\<lambda>path. None),
      stat_IsDir = (\<lambda>path. False),
      file_at = (\<lambda>path. if path = ''root/a.txt''
                        then \<lparr>open_err = None, first_read = (''x'', None),
                              stat_res = Inr 9007199254740993, readfile_res = Inr ''x''\<rparr>
                        else if path = ''root/sub/b.txt'' then regular_file ''hi''
                        else no_file)\<rparr>"

definition size_over_2_53_result :: CollectionResult where
  "size_over_2_53_result =
     \<lparr>Files = [\<lparr>RelPath = ''a.txt'', Content = ''x'', Size = 9007199254740993,
                 Language = ''text''\<rparr>,
               \<lparr>RelPath = ''sub/b.txt'', Content = ''hi'', Size = 2, Language = ''text''\<rparr>],
      TotalSize = 9007199254740995, FileCount = 2\<rparr>"

text \<open>The same tree with files that can be opened and measured, and whose reading fails.\<close>

definition read_fails :: filesystem where
  "read_fails =
     \<lparr>tree = Some (Dir False [(''a.txt'', File), (''sub'', Dir False [(''b.txt'', File)])]),
      EvalSymlinks = (\<lambda>path. None),
      stat_IsDir = (\<lambda>path. False),
      file_at = (\<lambda>path. \<lparr>open_err = None, first_read = (''x'', None),
                           stat_res = Inr 1, readfile_res = Inl OSError\<rparr>)\<rparr>"

text \<open>A run cancelled at instant 1, after both workers have passed their check at instant
  0 and before either returns at instant 2.\<close>

definition late_cancel :: schedule where
  "late_cancel =
     \<lparr>cancelAt = Some 1, checkAt = (\<lambda>i. 0), finishAt = (\<lambda>i. 2), arrival = [1, 0]\<rparr>"

text \<open>A run cancelled at instant 1, when the second worker has not yet made its check.\<close>

definition early_cancel :: schedule where
  "early_cancel =
     \<lparr>cancelAt = Some 1, checkAt = (\<lambda>i. i), finishAt = (\<lambda>i. i + 2), arrival = [1, 0]\<rparr>"

text \<open>The tree \<^verbatim>\<open>root/a.txt\<close>, \<^verbatim>\<open>root/sub/b.txt\<close>, \<^verbatim>\<open>root/sub/deep/c.txt\<close>.\<close>

definition three_levels :: filesystem where
  "three_levels =
     \<lparr>tree = Some (Dir False [(''a.txt'', File),
                              (''sub'', Dir False [(''b.txt'', File),
                                                   (''deep'', Dir False [(''c.txt'', File)])])]),
      EvalSymlinks = (\<lambda>path. None),
      stat_IsDir = (\<lambda>path. False),
      file_at = (\<lambda>path. regular_file ''text'')\<rparr>"

text \<open>A directory with a link \<^verbatim>\<open>root/loop\<close> to the directory itself, and a file.\<close>

definition link_cycle :: filesystem where
  "link_cycle =
     \<lparr>tree = Some (Dir False [(''loop'', Symlink), (''main.go'', File)]),
      EvalSymlinks = (\<lambda>path. if path = ''root/loop'' then Some ''root'' else None),
      stat_IsDir = (\<lambda>path. path = ''root''),
      file_at = (\<lambda>path. regular_file ''package main'')\<rparr>"

text \<open>A directory with two links to one directory outside the tree, and a file listed
  after them.\<close>

definition two_links :: filesystem where
  "two_links =
     \<lparr>tree = Some (Dir False [(''a'', Symlink), (''b'', Symlink), (''main.go'', File)]),
      EvalSymlinks = (\<lambda>path. if path = ''root/a'' \<or> path = ''root/b'' then Some ''/target''
                             else None),
      stat_IsDir = (\<lambda>path. path = ''/target''),
      file_at = (\<lambda>path. regular_file ''package main'')\<rparr>"

text \<open>An ignore file with the lines \<^verbatim>\<open>secret.txt\<close> and \<^verbatim>\<open>private/\<close>, read without error,
  and the default filter after it has loaded that file.\<close>

definition ignore_file :: "(string list \<times> error option) option" where
  "ignore_file = Some ([''secret.txt'', ''private/''], None)"

definition ignoring_filter :: Filter where
  "ignoring_filter = fst (LoadGitignore plain_glob_Compile ignore_file default_filter)"

subsection \<open>Notions for the proofs about the traversal\<close>

text \<open>A path is at or below another; a path is at or below an entry of a directory; a
  step of the traversal adds jobs, or listed directories, of a region, each once.\<close>

definition under :: "string \<Rightarrow> string \<Rightarrow> bool" where
  "under path q = (q = path \<or> prefix (path @ [PathSeparator]) q)"

definition below_entries :: "string \<Rightarrow> (string \<times> node) list \<Rightarrow> string \<Rightarrow> bool" where
  "below_entries path es q = (\<exists>name \<in> set (map fst es). under (Join path name) q)"

definition adds_jobs :: "string \<Rightarrow> (string \<Rightarrow> bool) \<Rightarrow> walk_state \<Rightarrow> walk_state \<Rightarrow> bool" where
  "adds_jobs rootPath region st st' =
     (\<exists>new. fileJobs st' = fileJobs st @ new
        \<and> (\<forall>j \<in> set new. region (fullPath j) \<and> Rel rootPath (fullPath j) = Some (relPath j))
        \<and> distinct (map fullPath new))"

definition adds_listed :: "(string \<Rightarrow> bool) \<Rightarrow> nat \<Rightarrow> walk_state \<Rightarrow> walk_state \<Rightarrow> bool" where
  "adds_listed region k st st' =
     (\<exists>new. listed st' = listed st @ new \<and> (\<forall>q \<in> set new. region q) \<and> distinct new
        \<and> length new \<le> k)"

subsection \<open>Properties of the rendering\<close>

lemma HasSuffix_newline:
  "HasSuffix s [newline] \<longleftrightarrow> s \<noteq> [] \<and> last s = newline"
proof (cases s rule: rev_cases)
  case Nil
  then show ?thesis by (simp add: HasSuffix_def)
next
  case (snoc ys y)
  then show ?thesis by (simp add: HasSuffix_def)
qed

lemma format_loop_step:
  "format_loop n i (f # rest) sb =
     format_loop n (i + 1) rest (sb @ file_block f @ (if i < n - 1 then separator else []))"
  by (simp add: file_block_def fenced_body_def HasSuffix_newline separator_def)

lemma format_loop_join:
  "n = i + int (length fs) \<Longrightarrow>
   format_loop n i fs sb = sb @ join_blocks (map file_block fs)"
proof (induction fs arbitrary: i sb)
  case Nil
  then show ?case by simp
next
  case (Cons f rest)
  have n: "n = (i + 1) + int (length rest)"
    using Cons.prems by simp
  have step: "format_loop n i (f # rest) sb =
      (sb @ file_block f @ (if i < n - 1 then separator else []))
        @ join_blocks (map file_block rest)"
    unfolding format_loop_step using Cons.IH [OF n] by blast
  show ?case
  proof (cases rest)
    case Nil
    with Cons.prems step show ?thesis by simp
  next
    case (Cons g more)
    have lt: "i < n - 1"
      using Cons.prems Cons by simp
    show ?thesis
      unfolding step using lt Cons by simp
  qed
qed

lemma no_trailing_newline:
  "\<not> HasSuffix s [newline] \<Longrightarrow> takeWhile (\<lambda>c. c = newline) (rev s) = []"
  by (cases s rule: rev_cases) (simp_all add: HasSuffix_newline)

lemma trailing_newlines_fenced_body:
  "trailing_newlines (fenced_body f)
     = (if HasSuffix (Content f) [newline] then trailing_newlines (Content f) else 1)"
  by (simp add: trailing_newlines_def fenced_body_def HasSuffix_newline [symmetric]
      no_trailing_newline)

text \<open>
  C2, as amended. \<^verbatim>\<open>FormatAsMarkdown\<close> writes, for each record in order, the header line
  \<^verbatim>\<open>File: ./<RelPath>\<close> and a blank line, the opening fence with the language tag, the
  content as stored, one newline more exactly when the stored content does not end with
  one, and the closing fence; the blocks are joined by the separator, with none after the
  last. The text before the closing fence always ends with a newline: with one when the
  content had none at its end, and with as many as the content ends with otherwise.
\<close>

theorem FormatAsMarkdown_blocks:
  "FormatAsMarkdown result = join_blocks (map file_block (Files result))
   \<and> (\<forall>f. fenced_body f \<noteq> [] \<and> last (fenced_body f) = newline
          \<and> (if HasSuffix (Content f) [newline] then fenced_body f = Content f
              else fenced_body f = Content f @ [newline])
          \<and> trailing_newlines (fenced_body f)
              = (if HasSuffix (Content f) [newline] then trailing_newlines (Content f) else 1))"
proof -
  have "FormatAsMarkdown result = join_blocks (map file_block (Files result))"
    unfolding FormatAsMarkdown_def
    using format_loop_join [of "int (length (Files result))" 0 "Files result" "[]"]
    by simp
  moreover have "\<And>f. fenced_body f \<noteq> [] \<and> last (fenced_body f) = newline
          \<and> (if HasSuffix (Content f) [newline] then fenced_body f = Content f
              else fenced_body f = Content f @ [newline])"
    by (simp add: fenced_body_def HasSuffix_newline)
  ultimately show ?thesis
    using trailing_newlines_fenced_body by blast
qed

theorem FormatAsMarkdown_blocks_witness:
  "FormatAsMarkdown
     \<lparr>Files = [\<lparr>RelPath = ''a.go'', Content = ''package a'' @ [newline], Size = 10,
                 Language = ''go''\<rparr>,
               \<lparr>RelPath = ''b.py'', Content = ''print(1)'', Size = 8,
                 Language = ''python''\<rparr>],
      TotalSize = 18, FileCount = 2\<rparr>
   = ''File: ./a.go'' @ [newline, newline] @ ''```go'' @ [newline] @
     ''package a'' @ [newline] @ ''```'' @ [newline] @
     [newline] @ ''---'' @ [newline, newline] @
     ''File: ./b.py'' @ [newline, newline] @ ''```python'' @ [newline] @
     ''print(1)'' @ [newline] @ ''```'' @ [newline]
   \<and> trailing_newlines (fenced_body \<lparr>RelPath = ''b.py'', Content = ''print(1)'', Size = 8,
                 Language = ''python''\<rparr>) = 1"
  using FormatAsMarkdown_blocks
    [of "\<lparr>Files = [\<lparr>RelPath = ''a.go'', Content = ''package a'' @ [newline], Size = 10,
                 Language = ''go''\<rparr>,
               \<lparr>RelPath = ''b.py'', Content = ''print(1)'', Size = 8,
                 Language = ''python''\<rparr>],
      TotalSize = 18, FileCount = 2\<rparr>"]
  by (simp add: file_block_def fenced_body_def separator_def newline_def trailing_newlines_def)

lemma FormatAsMarkdown_join:
  "FormatAsMarkdown result = join_blocks (map file_block (Files result))"
  unfolding FormatAsMarkdown_def
  using format_loop_join [of "int (length (Files result))" 0 "Files result" "[]"]
  by simp

text \<open>
  C2 as stated fails: a content that ends with two newlines is written with both before
  the closing fence, not with exactly one.
\<close>

theorem two_trailing_newlines_counterexample:
  "FormatAsMarkdown two_newlines
     = ''File: ./a.txt'' @ [newline, newline] @ ''```text'' @ [newline] @
       ''x'' @ [newline, newline] @ ''```'' @ [newline]
   \<and> fenced_body (hd (Files two_newlines)) = ''x'' @ [newline, newline]
   \<and> trailing_newlines (fenced_body (hd (Files two_newlines))) = 2"
proof -
  have body: "fenced_body (hd (Files two_newlines)) = ''x'' @ [newline, newline]"
    by (simp add: two_newlines_def fenced_body_def)
  have "FormatAsMarkdown two_newlines
     = ''File: ./a.txt'' @ [newline, newline] @ ''```text'' @ [newline] @
       ''x'' @ [newline, newline] @ ''```'' @ [newline]"
    unfolding FormatAsMarkdown_join
    by (simp add: two_newlines_def file_block_def fenced_body_def)
  moreover have "trailing_newlines (fenced_body (hd (Files two_newlines))) = 2"
    unfolding body by (simp add: trailing_newlines_def newline_def)
  ultimately show ?thesis
    using body by blast
qed

subsection \<open>Properties of the filter\<close>

lemma match_loop_ex: "match_loop ms path = list_ex (\<lambda>m. m path) ms"
  by (induction ms) auto

lemma compile_loop_Parsed:
  "compile_loop lib (map Parsed rs) acc = acc @ map MatchString rs"
  by (induction rs arbitrary: acc) auto

lemma default_ext_loop_set:
  "default_ext_loop exts m e = (e \<in> set exts \<or> m e)"
  by (induction exts arbitrary: m) auto

lemma default_filter_fields:
  "excludePatterns default_filter = map MatchString alwaysExclude"
  "allowedExts default_filter e = (e \<in> set defaultExts)"
  "gitignoreGlobs default_filter = []"
  "respectGitignore default_filter = True"
  using compile_loop_Parsed [of "\<lambda>text. None" alwaysExclude "[]"]
  by (simp_all add: default_filter_def NewFilter_def default_ext_loop_set)

lemma default_filter_ShouldInclude:
  "ShouldInclude default_filter path =
     (\<not> list_ex (\<lambda>r. MatchString r path) alwaysExclude
      \<and> (if Ext path = [] then commonNoExtFiles (Base path) else Ext path \<in> set defaultExts))"
  by (simp add: ShouldInclude_def default_filter_fields match_loop_ex ToSlash_def list_ex_iff)

lemmas filter_eval =
  default_filter_ShouldInclude alwaysExclude_def component_def ending_def MatchString_def
  Ext_def Base_def commonNoExtFiles_def defaultExts_def PathSeparator_def

lemma include_sub_dummy_go: "ShouldInclude default_filter ''sub/dummy.go''"
  by (simp add: filter_eval)
lemma include_sub_b_txt: "ShouldInclude default_filter ''sub/b.txt''"
  by (simp add: filter_eval)
lemma include_a_txt: "ShouldInclude default_filter ''a.txt''"
  by (simp add: filter_eval)

lemma NewFilter_fields:
  "excludePatterns (NewFilter lib exts [] respect tests) =
     map MatchString (alwaysExclude @ (if tests then testPatterns else []))"
  "gitignoreGlobs (NewFilter lib exts customs respect tests) = []"
  "respectGitignore (NewFilter lib exts customs respect tests) = respect"
  using compile_loop_Parsed [of lib "alwaysExclude @ testPatterns" "[]"]
    compile_loop_Parsed [of lib alwaysExclude "[]"]
  by (simp_all add: NewFilter_def Let_def)

lemma Dockerfile_not_excluded:
  "\<not> list_ex (\<lambda>r. MatchString r ''Dockerfile'') (alwaysExclude @ testPatterns)"
  by (simp add: alwaysExclude_def testPatterns_def component_def ending_def MatchString_def)

lemma no_extension:
  "Ext ''Dockerfile'' = []" "Base ''Dockerfile'' = ''Dockerfile''"
  "Ext ''notes'' = []" "Base ''notes'' = ''notes''"
  by (simp_all add: Ext_def Base_def PathSeparator_def)

text \<open>
  C4. \<^verbatim>\<open>ShouldInclude\<close> decides in this order, the first stage that applies deciding: a
  path that an exclusion pattern matches, after its separators are normalised, is
  excluded; a path that a glob of the ignore file matches, when these are in use, is
  excluded; a path without extension is included exactly when its file name is one of
  the six names of build files; a path whose extension is not allowed is excluded; any
  other path is included. So a filter built without patterns of the caller includes
  \<^verbatim>\<open>Dockerfile\<close>, and every filter excludes \<^verbatim>\<open>notes\<close>.
\<close>

theorem ShouldInclude_stages:
  "ShouldInclude f path =
     (if (\<exists>re \<in> set (excludePatterns f). re (ToSlash path)) then False
      else if respectGitignore f \<and> (\<exists>g \<in> set (gitignoreGlobs f). g (ToSlash path)) then False
      else if Ext (ToSlash path) = []
        then Base (ToSlash path) \<in> set [''Makefile'', ''Dockerfile'', ''Rakefile'',
                                          ''Gemfile'', ''Procfile'', ''Vagrantfile'']
      else if \<not> allowedExts f (Ext (ToSlash path)) then False
      else True)
   \<and> ShouldInclude (NewFilter lib exts [] respect tests) ''Dockerfile''
   \<and> \<not> ShouldInclude f ''notes''"
proof (intro conjI)
  show "ShouldInclude f path =
     (if (\<exists>re \<in> set (excludePatterns f). re (ToSlash path)) then False
      else if respectGitignore f \<and> (\<exists>g \<in> set (gitignoreGlobs f). g (ToSlash path)) then False
      else if Ext (ToSlash path) = []
        then Base (ToSlash path) \<in> set [''Makefile'', ''Dockerfile'', ''Rakefile'',
                                          ''Gemfile'', ''Procfile'', ''Vagrantfile'']
      else if \<not> allowedExts f (Ext (ToSlash path)) then False
      else True)"
    unfolding ShouldInclude_def match_loop_ex list_ex_iff commonNoExtFiles_def Let_def
    by simp
  have "\<not> list_ex (\<lambda>r. MatchString r ''Dockerfile'') (alwaysExclude @ (if tests then testPatterns else []))"
    using Dockerfile_not_excluded by (cases tests) simp_all
  then show "ShouldInclude (NewFilter lib exts [] respect tests) ''Dockerfile''"
    unfolding ShouldInclude_def match_loop_ex NewFilter_fields ToSlash_def Let_def
    by (auto simp: no_extension commonNoExtFiles_def list_ex_iff)
  show "\<not> ShouldInclude f ''notes''"
    unfolding ShouldInclude_def ToSlash_def Let_def
    by (simp add: no_extension commonNoExtFiles_def)
qed

theorem ShouldInclude_stages_witness:
  "ShouldInclude default_filter ''Dockerfile'' \<and> \<not> ShouldInclude default_filter ''notes''"
  using ShouldInclude_stages [of default_filter _ "\<lambda>text. None" "[]" True False]
  unfolding default_filter_def by blast


subsection \<open>Properties of the conversion to float64\<close>

lemma float64_of_int_exact: "\<bar>k\<bar> < 2 ^ 53 \<Longrightarrow> float64_of_int k = real_of_int k"
  by (auto simp: float64_of_int_def round_half_even_def float64_ulp.simps [of "nat k"]
      float64_ulp.simps [of "nat (- k)"] nat_less_iff)

lemma float64_of_int_rounds: "float64_of_int 9007199254740993 = 9007199254740992"
  by (simp add: float64_of_int_def round_half_even_def float64_ulp.simps [of 9007199254740993]
      float64_ulp.simps [of 4503599627370496])

subsection \<open>The example run\<close>

lemma two_files_jobs:
  "enumerate_jobs two_files ''root'' default_filter 0 =
     (None, \<lparr>fileJobs = [\<lparr>fullPath = ''root/a.txt'', relPath = ''a.txt''\<rparr>,
                          \<lparr>fullPath = ''root/sub/b.txt'', relPath = ''sub/b.txt''\<rparr>],
             visitedDirs = (\<lambda>_. False), listed = [''root'', ''root/sub'']\<rparr>)"
  by (simp add: enumerate_jobs_def WalkDir_def two_files_def walkFn_def visit_entry_def Rel_def
      Join_def HasPrefix_def Count_def PathSeparator_def include_sub_dummy_go include_sub_b_txt include_a_txt)

lemma getLanguage_txt:
  "getLanguage ''a.txt'' = ''text''" "getLanguage ''sub/b.txt'' = ''text''"
  by (simp_all add: getLanguage_def Ext_def Base_def languageMap_def PathSeparator_def)

lemma two_files_workers:
  "worker (file_at two_files) 10 False \<lparr>fullPath = ''root/a.txt'', relPath = ''a.txt''\<rparr> =
     (Some \<lparr>data = \<lparr>RelPath = ''a.txt'', Content = ''hello'', Size = 5, Language = ''text''\<rparr>,
            err = None\<rparr>, None)"
  "worker (file_at two_files) 10 False \<lparr>fullPath = ''root/sub/b.txt'', relPath = ''sub/b.txt''\<rparr> =
     (Some \<lparr>data = \<lparr>RelPath = ''sub/b.txt'', Content = ''hi'', Size = 2, Language = ''text''\<rparr>,
            err = None\<rparr>, None)"
  by (simp_all add: worker_def isBinaryFile_def two_files_def regular_file_def NUL_def
      getLanguage_txt float64_of_int_exact)

lemma two_files_Collect:
  "Collect second_first two_files ''root'' default_filter 0 10 = Inr two_files_result"
  by (simp add: Collect_def two_files_jobs Let_def second_first_def ctx_done_at_def
      two_files_workers two_files_result_def upt_rec [of 0] upt_rec [of 1])


subsection \<open>Properties of the traversal\<close>

lemma HasPrefix_prefix: "HasPrefix s p = prefix p s"
  unfolding HasPrefix_def prefix_def
  by (metis append_eq_conv_conj append_take_drop_id length_append le_add1)


lemma under_Join: "under (Join path name) q \<Longrightarrow> prefix (path @ [PathSeparator]) q"
  unfolding under_def Join_def
  by (auto simp: prefix_def)

lemma first_element:
  assumes "PathSeparator \<notin> set name" and "r = name \<or> prefix (name @ [PathSeparator]) r"
  shows "takeWhile (\<lambda>c. c \<noteq> PathSeparator) r = name"
  using assms by (auto simp: prefix_def takeWhile_tail takeWhile_eq_all_conv)

lemma under_Join_rest:
  assumes "under (Join path name) q"
  shows "\<exists>r. q = path @ [PathSeparator] @ r \<and> (r = name \<or> prefix (name @ [PathSeparator]) r)"
  using assms unfolding under_def Join_def
  by (auto simp: prefix_def)

lemma under_disjoint:
  assumes "under (Join path name1) q" and "under (Join path name2) q"
    and "PathSeparator \<notin> set name1" and "PathSeparator \<notin> set name2"
  shows "name1 = name2"
proof -
  from under_Join_rest [OF assms(1)] obtain r1 where
    r1: "q = path @ [PathSeparator] @ r1" "r1 = name1 \<or> prefix (name1 @ [PathSeparator]) r1"
    by blast
  from under_Join_rest [OF assms(2)] obtain r2 where
    r2: "q = path @ [PathSeparator] @ r2" "r2 = name2 \<or> prefix (name2 @ [PathSeparator]) r2"
    by blast
  from r1(1) r2(1) have "r1 = r2" by simp
  with first_element [OF assms(3) r1(2)] first_element [OF assms(4) r2(2)]
  show ?thesis by simp
qed

lemma walkFn_effect:
  assumes "walkFn fs rootPath f maxDepth st path entry e = (c, st')"
  shows "listed st' = listed st"
    and "fileJobs st' = fileJobs st
         \<or> (\<exists>d rel. entry = Some d \<and> \<not> IsDir d \<and> Rel rootPath path = Some rel
               \<and> fileJobs st' = fileJobs st @ [\<lparr>fullPath = path, relPath = rel\<rparr>])"
  using assms unfolding walkFn_def visit_entry_def
  by (auto simp: Let_def split: if_splits option.splits)



lemma adds_jobs_same: "fileJobs st' = fileJobs st \<Longrightarrow> adds_jobs rootPath region st st'"
  unfolding adds_jobs_def by simp

lemma adds_jobs_one:
  "fileJobs st' = fileJobs st @ [\<lparr>fullPath = path, relPath = rel\<rparr>] \<Longrightarrow> region path
   \<Longrightarrow> Rel rootPath path = Some rel \<Longrightarrow> adds_jobs rootPath region st st'"
  unfolding adds_jobs_def by simp

lemma adds_jobs_mono:
  "adds_jobs rootPath region st st' \<Longrightarrow> (\<And>q. region q \<Longrightarrow> region' q)
   \<Longrightarrow> adds_jobs rootPath region' st st'"
  unfolding adds_jobs_def by blast

lemma adds_jobs_cong:
  "adds_jobs rootPath region st st' \<Longrightarrow> fileJobs st0 = fileJobs st
   \<Longrightarrow> fileJobs st1 = fileJobs st' \<Longrightarrow> adds_jobs rootPath region st0 st1"
  unfolding adds_jobs_def by simp

lemma adds_jobs_trans:
  assumes "adds_jobs rootPath region1 st st1" and "adds_jobs rootPath region2 st1 st2"
    and "\<And>q. region1 q \<Longrightarrow> region2 q \<Longrightarrow> False"
  shows "adds_jobs rootPath (\<lambda>q. region1 q \<or> region2 q) st st2"
proof -
  from assms(1) obtain new1 where
    n1: "fileJobs st1 = fileJobs st @ new1"
        "\<forall>j \<in> set new1. region1 (fullPath j) \<and> Rel rootPath (fullPath j) = Some (relPath j)"
        "distinct (map fullPath new1)"
    unfolding adds_jobs_def by blast
  from assms(2) obtain new2 where
    n2: "fileJobs st2 = fileJobs st1 @ new2"
        "\<forall>j \<in> set new2. region2 (fullPath j) \<and> Rel rootPath (fullPath j) = Some (relPath j)"
        "distinct (map fullPath new2)"
    unfolding adds_jobs_def by blast
  have "fullPath ` set new1 \<inter> fullPath ` set new2 = {}"
    using n1(2) n2(2) assms(3) by fastforce
  then have "distinct (map fullPath (new1 @ new2))"
    using n1(3) n2(3) by simp
  moreover have "fileJobs st2 = fileJobs st @ (new1 @ new2)"
    using n1(1) n2(1) by simp
  moreover have "\<forall>j \<in> set (new1 @ new2). (region1 (fullPath j) \<or> region2 (fullPath j))
      \<and> Rel rootPath (fullPath j) = Some (relPath j)"
    using n1(2) n2(2) by auto
  ultimately show ?thesis
    unfolding adds_jobs_def by blast
qed

lemma walkFn_adds:
  assumes "walkFn fs rootPath f maxDepth st path entry e = (c, st')"
  shows "adds_jobs rootPath (\<lambda>q. q = path) st st'"
  using walkFn_effect(2) [OF assms]
  by (auto intro: adds_jobs_same adds_jobs_one)

lemma walkFn_dir_adds_nothing:
  assumes "walkFn fs rootPath f maxDepth st path (Some (Dir readErr entries)) e = (c, st')"
  shows "fileJobs st' = fileJobs st"
  using walkFn_effect(2) [OF assms] by auto


lemma walk_adds:
  "listing_ok n \<Longrightarrow>
     adds_jobs rootPath (if IsDir n then below_entries path (case n of Dir e es \<Rightarrow> es | _ \<Rightarrow> [])
                         else (\<lambda>q. q = path))
       st (snd (walkDir (walkFn fs rootPath f maxDepth) path n st))"
  "entries_ok es \<Longrightarrow> distinct (map fst es) \<Longrightarrow> list_all name_ok (map fst es) \<Longrightarrow>
     adds_jobs rootPath (below_entries path es)
       st (walkEntries (walkFn fs rootPath f maxDepth) path es st)"
proof (induction "walkFn fs rootPath f maxDepth" path n st
         and "walkFn fs rootPath f maxDepth" path es st
       rule: walkDir_walkEntries.induct)
  case (1 path st)
  obtain c st' where r: "walkFn fs rootPath f maxDepth st path (Some File) None = (c, st')"
    by (cases "walkFn fs rootPath f maxDepth st path (Some File) None") auto
  from walkFn_adds [OF r] show ?case by (simp add: r)
next
  case (2 path st)
  obtain c st' where r: "walkFn fs rootPath f maxDepth st path (Some Symlink) None = (c, st')"
    by (cases "walkFn fs rootPath f maxDepth st path (Some Symlink) None") auto
  from walkFn_adds [OF r] show ?case by (simp add: r)
next
  case (3 path readErr entries st)
  let ?fn = "walkFn fs rootPath f maxDepth"
  let ?d = "Some (Dir readErr entries)"
  from "3.prems" have ok: "entries_ok entries" "distinct (map fst entries)"
    "list_all name_ok (map fst entries)" by simp_all
  obtain c st1 where r1: "?fn st path ?d None = (c, st1)"
    by (cases "?fn st path ?d None") auto
  have j1: "fileJobs st1 = fileJobs st"
    using walkFn_dir_adds_nothing [OF r1] .
  show ?case
  proof (cases c)
    case SkipDir
    then show ?thesis
      using r1 j1 by (simp add: adds_jobs_same)
  next
    case Continue
    define st2 where "st2 = st1\<lparr>listed := listed st1 @ [path]\<rparr>"
    have j2: "fileJobs st2 = fileJobs st" unfolding st2_def using j1 by simp
    show ?thesis
    proof (cases readErr)
      case False
      have "adds_jobs rootPath (below_entries path entries) st2 (walkEntries ?fn path entries st2)"
        using "3.hyps"(2) [OF r1 [unfolded Continue, symmetric] _ st2_def False ok]
        by simp
      then have "adds_jobs rootPath (below_entries path entries) st (walkEntries ?fn path entries st2)"
        using adds_jobs_cong [OF _ j2 [symmetric] refl] by blast
      then show ?thesis
        using r1 Continue False by (simp add: st2_def)
    next
      case True
      obtain c3 st3 where r3: "?fn st2 path ?d (Some OSError) = (c3, st3)"
        by (cases "?fn st2 path ?d (Some OSError)") auto
      have j3: "fileJobs st3 = fileJobs st"
        using walkFn_dir_adds_nothing [OF r3] j2 by simp
      show ?thesis
      proof (cases c3)
        case SkipDir
        then show ?thesis
          using r1 Continue True r3 j3 by (simp add: st2_def [symmetric] adds_jobs_same)
      next
        case c3: Continue
        have "adds_jobs rootPath (below_entries path entries) st3 (walkEntries ?fn path entries st3)"
          using "3.hyps"(1) [OF r1 [unfolded Continue, symmetric] _ st2_def True
              r3 [unfolded c3, symmetric] _ ok]
          by simp
        then have "adds_jobs rootPath (below_entries path entries) st (walkEntries ?fn path entries st3)"
          using adds_jobs_cong [OF _ j3 [symmetric] refl] by blast
        then show ?thesis
          using r1 Continue True r3 c3 by (simp add: st2_def [symmetric])
      qed
    qed
  qed
next
  case (4 path st)
  show ?case by (simp add: adds_jobs_same)
next
  case (5 path name n rest st)
  let ?fn = "walkFn fs rootPath f maxDepth"
  from "5.prems" have ok: "listing_ok n" "entries_ok rest" "distinct (map fst rest)"
    "list_all name_ok (map fst rest)" "name \<notin> set (map fst rest)" "name_ok name"
    by simp_all
  obtain c st1 where r1: "walkDir ?fn (Join path name) n st = (c, st1)"
    by (cases "walkDir ?fn (Join path name) n st") auto
  have "adds_jobs rootPath (if IsDir n then below_entries (Join path name) (case n of Dir e es \<Rightarrow> es | _ \<Rightarrow> [])
                         else (\<lambda>q. q = Join path name)) st st1"
    using "5.hyps"(1) [OF ok(1)] r1 by simp
  then have a1: "adds_jobs rootPath (under (Join path name)) st st1"
  proof (rule adds_jobs_mono)
    fix q
    assume "(if IsDir n then below_entries (Join path name) (case n of Dir e es \<Rightarrow> es | _ \<Rightarrow> [])
                         else (\<lambda>q. q = Join path name)) q"
    then show "under (Join path name) q"
      by (auto simp: below_entries_def under_def Join_def prefix_def split: if_splits)
  qed
  show ?case
  proof (cases c)
    case SkipDir
    have "adds_jobs rootPath (below_entries path ((name, n) # rest)) st st1"
      using a1 by (rule adds_jobs_mono) (simp add: below_entries_def)
    then show ?thesis using r1 SkipDir by simp
  next
    case Continue
    have a2: "adds_jobs rootPath (below_entries path rest) st1 (walkEntries ?fn path rest st1)"
      using "5.hyps"(2) [OF r1 [symmetric] Continue ok(2) ok(3) ok(4)] .
    have disj: "\<And>q. under (Join path name) q \<Longrightarrow> below_entries path rest q \<Longrightarrow> False"
    proof -
      fix q
      assume u: "under (Join path name) q" and b: "below_entries path rest q"
      from b obtain name' where n': "name' \<in> set (map fst rest)" "under (Join path name') q"
        unfolding below_entries_def by blast
      have "name_ok name'" using ok(4) n'(1) by (auto simp: list_all_iff)
      with under_disjoint [OF u n'(2)] ok(6) have "name = name'"
        by (simp add: name_ok_def)
      with ok(5) n'(1) show False by simp
    qed
    have "adds_jobs rootPath (\<lambda>q. under (Join path name) q \<or> below_entries path rest q)
            st (walkEntries ?fn path rest st1)"
      using adds_jobs_trans [OF a1 a2 disj] .
    then have "adds_jobs rootPath (below_entries path ((name, n) # rest))
            st (walkEntries ?fn path rest st1)"
      by (rule adds_jobs_mono) (auto simp: below_entries_def)
    then show ?thesis using r1 Continue by simp
  qed
qed


lemma adds_listed_same: "listed st' = listed st \<Longrightarrow> adds_listed region k st st'"
  unfolding adds_listed_def by simp

lemma adds_listed_mono:
  "adds_listed region k st st' \<Longrightarrow> (\<And>q. region q \<Longrightarrow> region' q) \<Longrightarrow> k \<le> k'
   \<Longrightarrow> adds_listed region' k' st st'"
  unfolding adds_listed_def by (meson le_trans)

lemma adds_listed_trans:
  assumes "adds_listed region1 k1 st st1" and "adds_listed region2 k2 st1 st2"
    and "\<And>q. region1 q \<Longrightarrow> region2 q \<Longrightarrow> False"
  shows "adds_listed (\<lambda>q. region1 q \<or> region2 q) (k1 + k2) st st2"
proof -
  from assms(1) obtain new1 where
    n1: "listed st1 = listed st @ new1" "\<forall>q \<in> set new1. region1 q" "distinct new1"
        "length new1 \<le> k1"
    unfolding adds_listed_def by blast
  from assms(2) obtain new2 where
    n2: "listed st2 = listed st1 @ new2" "\<forall>q \<in> set new2. region2 q" "distinct new2"
        "length new2 \<le> k2"
    unfolding adds_listed_def by blast
  have "set new1 \<inter> set new2 = {}"
    using n1(2) n2(2) assms(3) by blast
  then have "distinct (new1 @ new2)"
    using n1(3) n2(3) by simp
  moreover have "listed st2 = listed st @ (new1 @ new2)"
    using n1(1) n2(1) by simp
  moreover have "\<forall>q \<in> set (new1 @ new2). region1 q \<or> region2 q"
    using n1(2) n2(2) by auto
  moreover have "length (new1 @ new2) \<le> k1 + k2"
    using n1(4) n2(4) by simp
  ultimately show ?thesis
    unfolding adds_listed_def by blast
qed

lemma under_Join_under: "under (Join path name) q \<Longrightarrow> under path q"
  using under_Join [of path name q] by (simp add: under_def)

lemma under_Join_not_self: "under (Join path name) path \<Longrightarrow> False"
  using under_Join [of path name path] by (simp add: prefix_def)

lemma walkFn_listed:
  "listed (snd (walkFn fs rootPath f maxDepth st path entry e)) = listed st"
  using walkFn_effect(1) [of fs rootPath f maxDepth st path entry e]
  by (cases "walkFn fs rootPath f maxDepth st path entry e") simp

lemma walk_lists:
  "listing_ok n \<Longrightarrow>
     adds_listed (under path) (count_dirs n)
       st (snd (walkDir (walkFn fs rootPath f maxDepth) path n st))"
  "entries_ok es \<Longrightarrow> distinct (map fst es) \<Longrightarrow> list_all name_ok (map fst es) \<Longrightarrow>
     adds_listed (below_entries path es) (count_dirs_entries es)
       st (walkEntries (walkFn fs rootPath f maxDepth) path es st)"
proof (induction "walkFn fs rootPath f maxDepth" path n st
         and "walkFn fs rootPath f maxDepth" path es st
       rule: walkDir_walkEntries.induct)
  case (1 path st)
  show ?case by (simp add: adds_listed_same walkFn_listed)
next
  case (2 path st)
  show ?case by (simp add: adds_listed_same walkFn_listed)
next
  case (3 path readErr entries st)
  let ?fn = "walkFn fs rootPath f maxDepth"
  let ?d = "Some (Dir readErr entries)"
  from "3.prems" have ok: "entries_ok entries" "distinct (map fst entries)"
    "list_all name_ok (map fst entries)" by simp_all
  obtain c st1 where r1: "?fn st path ?d None = (c, st1)"
    by (cases "?fn st path ?d None") auto
  have l1: "listed st1 = listed st"
    using walkFn_effect(1) [OF r1] .
  show ?case
  proof (cases c)
    case SkipDir
    then show ?thesis
      using r1 l1 by (simp add: adds_listed_same)
  next
    case Continue
    define st2 where "st2 = st1\<lparr>listed := listed st1 @ [path]\<rparr>"
    have own: "adds_listed (\<lambda>q. q = path) 1 st st2"
      unfolding adds_listed_def st2_def l1 by simp
    have apart: "\<And>q. q = path \<Longrightarrow> below_entries path entries q \<Longrightarrow> False"
      by (auto simp: below_entries_def dest: under_Join_not_self)
    have widen: "under path q" if "q = path \<or> below_entries path entries q" for q
      using that
    proof
      assume "q = path"
      then show ?thesis by (simp add: under_def)
    next
      assume "below_entries path entries q"
      then obtain name where "under (Join path name) q"
        unfolding below_entries_def by blast
      then show ?thesis by (rule under_Join_under)
    qed
    have rest: "adds_listed (under path) (count_dirs (Dir readErr entries)) st
                  (walkEntries ?fn path entries st3)"
      if "adds_listed (below_entries path entries) (count_dirs_entries entries) st3
            (walkEntries ?fn path entries st3)" and "listed st3 = listed st2" for st3
    proof -
      have "adds_listed (\<lambda>q. q = path) 1 st st3"
        using own that(2) unfolding adds_listed_def by simp
      from adds_listed_trans [OF this that(1) apart]
      show ?thesis
        by (rule adds_listed_mono) (use widen in auto)
    qed
    show ?thesis
    proof (cases readErr)
      case False
      have "adds_listed (below_entries path entries) (count_dirs_entries entries) st2
              (walkEntries ?fn path entries st2)"
        using "3.hyps"(2) [OF r1 [unfolded Continue, symmetric] _ st2_def False ok]
        by simp
      from rest [OF this refl] show ?thesis
        using r1 Continue False by (simp add: st2_def)
    next
      case True
      obtain c3 st3 where r3: "?fn st2 path ?d (Some OSError) = (c3, st3)"
        by (cases "?fn st2 path ?d (Some OSError)") auto
      have l3: "listed st3 = listed st2"
        using walkFn_effect(1) [OF r3] .
      show ?thesis
      proof (cases c3)
        case SkipDir
        have "adds_listed (under path) (count_dirs (Dir readErr entries)) st st3"
          using own l3 unfolding adds_listed_def by (auto simp: under_def)
        then show ?thesis
          using r1 Continue True r3 SkipDir by (simp add: st2_def [symmetric])
      next
        case c3: Continue
        have "adds_listed (below_entries path entries) (count_dirs_entries entries) st3
                (walkEntries ?fn path entries st3)"
          using "3.hyps"(1) [OF r1 [unfolded Continue, symmetric] _ st2_def True
              r3 [unfolded c3, symmetric] _ ok]
          by simp
        from rest [OF this l3] show ?thesis
          using r1 Continue True r3 c3 by (simp add: st2_def [symmetric])
      qed
    qed
  qed
next
  case (4 path st)
  show ?case by (simp add: adds_listed_same)
next
  case (5 path name n rest st)
  let ?fn = "walkFn fs rootPath f maxDepth"
  from "5.prems" have ok: "listing_ok n" "entries_ok rest" "distinct (map fst rest)"
    "list_all name_ok (map fst rest)" "name \<notin> set (map fst rest)" "name_ok name"
    by simp_all
  obtain c st1 where r1: "walkDir ?fn (Join path name) n st = (c, st1)"
    by (cases "walkDir ?fn (Join path name) n st") auto
  have a1: "adds_listed (under (Join path name)) (count_dirs n) st st1"
    using "5.hyps"(1) [OF ok(1)] r1 by simp
  show ?case
  proof (cases c)
    case SkipDir
    have "adds_listed (below_entries path ((name, n) # rest))
            (count_dirs_entries ((name, n) # rest)) st st1"
      using a1 by (rule adds_listed_mono) (simp_all add: below_entries_def)
    then show ?thesis using r1 SkipDir by simp
  next
    case Continue
    have a2: "adds_listed (below_entries path rest) (count_dirs_entries rest) st1
                (walkEntries ?fn path rest st1)"
      using "5.hyps"(2) [OF r1 [symmetric] Continue ok(2) ok(3) ok(4)] .
    have disj: "\<And>q. under (Join path name) q \<Longrightarrow> below_entries path rest q \<Longrightarrow> False"
    proof -
      fix q
      assume u: "under (Join path name) q" and b: "below_entries path rest q"
      from b obtain name' where n': "name' \<in> set (map fst rest)" "under (Join path name') q"
        unfolding below_entries_def by blast
      have "name_ok name'" using ok(4) n'(1) by (auto simp: list_all_iff)
      with under_disjoint [OF u n'(2)] ok(6) have "name = name'"
        by (simp add: name_ok_def)
      with ok(5) n'(1) show False by simp
    qed
    have "adds_listed (\<lambda>q. under (Join path name) q \<or> below_entries path rest q)
            (count_dirs n + count_dirs_entries rest) st (walkEntries ?fn path rest st1)"
      using adds_listed_trans [OF a1 a2 disj] .
    then have "adds_listed (below_entries path ((name, n) # rest))
            (count_dirs_entries ((name, n) # rest)) st (walkEntries ?fn path rest st1)"
      by (rule adds_listed_mono) (auto simp: below_entries_def)
    then show ?thesis using r1 Continue by simp
  qed
qed


subsection \<open>Properties of Collect\<close>

lemma aggregate_Files:
  "Files (aggregate ms r0) = Files r0 @ map data (filter (\<lambda>m. err m = None) ms)"
  by (induction ms arbitrary: r0) auto

lemma aggregate_TotalSize:
  "TotalSize (aggregate ms r0) =
     TotalSize r0 + sum_list (map (\<lambda>m. Size (data m)) (filter (\<lambda>m. err m = None) ms))"
  by (induction ms arbitrary: r0) (auto simp: add.assoc)

lemma aggregate_total_is_sum:
  "TotalSize r0 = sum_list (map Size (Files r0)) \<Longrightarrow>
   TotalSize (aggregate ms r0) = sum_list (map Size (Files (aggregate ms r0)))"
  by (simp add: aggregate_Files aggregate_TotalSize comp_def)

lemma sum_list_sort_key:
  fixes f :: "'a \<Rightarrow> 'b::comm_monoid_add"
  shows "sum_list (map f (sort_key k xs)) = sum_list (map f xs)"
proof -
  have "sum_mset (image_mset f (mset (sort_key k xs))) = sum_mset (image_mset f (mset xs))"
    by simp
  then show ?thesis
    by (metis mset_map sum_mset_sum_list)
qed

lemma channel_sent:
  "m \<in> set (channel sent n arr) \<Longrightarrow> \<exists>i<n. sent i = Some m"
  by (induction arr) (auto split: if_splits option.splits)

lemma Collect_Inr:
  assumes "Collect S fs rootPath f maxDepth maxMB = Inr r"
  defines "jobs \<equiv> fileJobs (snd (enumerate_jobs fs rootPath f maxDepth))"
  defines "run \<equiv> \<lambda>i. worker (file_at fs) maxMB (ctx_done_at S i) (jobs ! i)"
  defines "agg \<equiv> aggregate (channel (\<lambda>i. fst (run i)) (length jobs) (arrival S))
                    \<lparr>Files = [], TotalSize = 0, FileCount = 0\<rparr>"
  shows "r = agg\<lparr>Files := sort_key RelPath (Files agg),
                 FileCount := int (length (sort_key RelPath (Files agg)))\<rparr>"
    and "eg_Wait (map (\<lambda>i. snd (run i)) [0..<length jobs]) = None"
  using assms(1) unfolding Collect_def jobs_def run_def agg_def
  by (auto simp: Let_def split: prod.splits option.splits)

lemma sint_sum_list:
  fixes ws :: "64 word list"
  shows "sint (sum_list ws) = signed_take_bit 63 (sum_list (map sint ws))"
proof (induction ws)
  case Nil
  then show ?case by simp
next
  case (Cons w ws)
  have "sint (w + sum_list ws) = signed_take_bit 63 (sint w + sint (sum_list ws))"
    by (simp add: sint_word_ariths)
  also have "\<dots> = signed_take_bit 63 (sint w + signed_take_bit 63 (sum_list (map sint ws)))"
    unfolding Cons.IH ..
  also have "\<dots> = signed_take_bit 63 (signed_take_bit 63 (sint w)
                 + signed_take_bit 63 (signed_take_bit 63 (sum_list (map sint ws))))"
    by (simp only: signed_take_bit_add)
  also have "\<dots> = signed_take_bit 63 (signed_take_bit 63 (sint w)
                 + signed_take_bit 63 (sum_list (map sint ws)))"
    by simp
  also have "\<dots> = signed_take_bit 63 (sint w + sum_list (map sint ws))"
    by (simp only: signed_take_bit_add)
  finally show ?case by simp
qed

text \<open>
  C10. In every result \<^verbatim>\<open>Collect\<close> returns, \<^verbatim>\<open>FileCount\<close> is the length of \<^verbatim>\<open>Files\<close> and
  \<^verbatim>\<open>TotalSize\<close> is the sum of the \<^verbatim>\<open>Size\<close> fields: as the 64-bit sum the source computes,
  and as the sum of integers whenever that sum fits 64 bits.
\<close>

theorem Collect_count_and_total:
  assumes "Collect S fs rootPath f maxDepth maxMB = Inr r"
  shows "FileCount r = int (length (Files r))
       \<and> TotalSize r = sum_list (map Size (Files r))
       \<and> (- (2 ^ 63) \<le> sum_list (map (\<lambda>d. sint (Size d)) (Files r))
            \<and> sum_list (map (\<lambda>d. sint (Size d)) (Files r)) < 2 ^ 63
          \<longrightarrow> sint (TotalSize r) = sum_list (map (\<lambda>d. sint (Size d)) (Files r)))"
proof -
  define jobs where "jobs = fileJobs (snd (enumerate_jobs fs rootPath f maxDepth))"
  define run where "run = (\<lambda>i. worker (file_at fs) maxMB (ctx_done_at S i) (jobs ! i))"
  define agg where "agg = aggregate (channel (\<lambda>i. fst (run i)) (length jobs) (arrival S))
                    \<lparr>Files = [], TotalSize = 0, FileCount = 0\<rparr>"
  have r: "r = agg\<lparr>Files := sort_key RelPath (Files agg),
                 FileCount := int (length (sort_key RelPath (Files agg)))\<rparr>"
    using Collect_Inr(1) [OF assms] unfolding agg_def run_def jobs_def .
  have count: "FileCount r = int (length (Files r))"
    unfolding r by simp
  have "TotalSize agg = sum_list (map Size (Files agg))"
    unfolding agg_def by (rule aggregate_total_is_sum) simp
  then have total: "TotalSize r = sum_list (map Size (Files r))"
    unfolding r by (simp add: sum_list_sort_key)
  have "sint (TotalSize r) = signed_take_bit 63 (sum_list (map (\<lambda>d. sint (Size d)) (Files r)))"
    unfolding total by (simp add: sint_sum_list comp_def)
  then have exact: "- (2 ^ 63) \<le> sum_list (map (\<lambda>d. sint (Size d)) (Files r))
            \<and> sum_list (map (\<lambda>d. sint (Size d)) (Files r)) < 2 ^ 63
          \<longrightarrow> sint (TotalSize r) = sum_list (map (\<lambda>d. sint (Size d)) (Files r))"
    by (simp add: signed_take_bit_int_eq_self)
  from count total exact show ?thesis by blast
qed


theorem Collect_count_and_total_witness:
  "FileCount two_files_result = 2 \<and> TotalSize two_files_result = 7
   \<and> sint (TotalSize two_files_result) = 7"
  using Collect_count_and_total [OF two_files_Collect]
  by (simp add: two_files_result_def)





lemma isBinaryFile_text:
  assumes "isBinaryFile files p = (False, None)"
  shows "open_err (files p) = None" and "NUL \<notin> set (fst (first_read (files p)))"
    and "snd (first_read (files p)) = None \<or> fst (first_read (files p)) \<noteq> []"
  using assms unfolding isBinaryFile_def
  by (auto split: option.splits prod.splits if_splits)

lemma worker_data:
  assumes "fst (worker files maxMB done job) = Some m" and "err m = None"
  shows "\<not> done" and "isBinaryFile files (fullPath job) = (False, None)"
    and "RelPath (data m) = relPath job"
    and "stat_res (files (fullPath job)) = Inr (Size (data m))"
    and "readfile_res (files (fullPath job)) = Inr (Content (data m))"
    and "\<not> (maxMB > 0 \<and> float64_of_int (sint (Size (data m))) / (1024 * 1024) > maxMB)"
  using assms unfolding worker_def
  by (auto simp: Let_def split: if_splits prod.splits sum.splits option.splits)

lemma Collect_file_origin:
  assumes "Collect S fs rootPath f maxDepth maxMB = Inr r" and "d \<in> set (Files r)"
  shows "\<exists>i m. i < length (fileJobs (snd (enumerate_jobs fs rootPath f maxDepth)))
           \<and> fst (worker (file_at fs) maxMB (ctx_done_at S i)
                    (fileJobs (snd (enumerate_jobs fs rootPath f maxDepth)) ! i)) = Some m
           \<and> err m = None \<and> data m = d"
proof -
  define jobs where "jobs = fileJobs (snd (enumerate_jobs fs rootPath f maxDepth))"
  define run where "run = (\<lambda>i. worker (file_at fs) maxMB (ctx_done_at S i) (jobs ! i))"
  define chan where "chan = channel (\<lambda>i. fst (run i)) (length jobs) (arrival S)"
  define agg where "agg = aggregate chan \<lparr>Files = [], TotalSize = 0, FileCount = 0\<rparr>"
  have r: "r = agg\<lparr>Files := sort_key RelPath (Files agg),
                 FileCount := int (length (sort_key RelPath (Files agg)))\<rparr>"
    using Collect_Inr(1) [OF assms(1)] unfolding agg_def chan_def run_def jobs_def .
  have "d \<in> set (Files agg)"
    using assms(2) unfolding r by simp
  then obtain m where m: "m \<in> set chan" "err m = None" "data m = d"
    unfolding agg_def by (auto simp: aggregate_Files)
  from channel_sent [OF m(1) [unfolded chan_def]]
  obtain i where "i < length jobs" "fst (run i) = Some m" by blast
  with m show ?thesis unfolding run_def jobs_def by blast
qed

text \<open>
  C3, as amended. Every record of a result \<^verbatim>\<open>Collect\<close> returns comes from a job whose first
  chunk, read into the buffer of 8192 bytes, held no NUL byte, and whose size as
  \<^verbatim>\<open>os.Stat\<close> reported it, converted to \<^verbatim>\<open>float64\<close> and divided by \<open>2 ^ 20\<close>, did not
  exceed a positive \<^verbatim>\<open>maxFileSizeMB\<close>; for a size below \<open>2 ^ 53\<close> bytes that is the size in
  megabytes itself. A worker that finds a NUL byte in the chunk, or such a size over the
  positive limit, sends nothing and returns no error.
\<close>

theorem Collect_files_text_and_within_limit:
  "(Collect S fs rootPath f maxDepth maxMB = Inr r \<longrightarrow>
      (\<forall>d \<in> set (Files r).
         \<exists>job \<in> set (fileJobs (snd (enumerate_jobs fs rootPath f maxDepth))).
           RelPath d = relPath job
           \<and> NUL \<notin> set (fst (first_read (file_at fs (fullPath job))))
           \<and> stat_res (file_at fs (fullPath job)) = Inr (Size d)
           \<and> (maxMB > 0 \<longrightarrow> float64_of_int (sint (Size d)) / (1024 * 1024) \<le> maxMB)
           \<and> (maxMB > 0 \<and> \<bar>sint (Size d)\<bar> < 2 ^ 53 \<longrightarrow>
                real_of_int (sint (Size d)) / (1024 * 1024) \<le> maxMB)))
   \<and> (NUL \<in> set (fst (first_read (files (fullPath job)))) \<longrightarrow>
        worker files maxMB False job = (None, None))
   \<and> (stat_res (files (fullPath job)) = Inr sz \<and> maxMB > 0
        \<and> float64_of_int (sint sz) / (1024 * 1024) > maxMB \<longrightarrow>
        worker files maxMB False job = (None, None))
   \<and> (stat_res (files (fullPath job)) = Inr sz \<and> maxMB > 0 \<and> \<bar>sint sz\<bar> < 2 ^ 53
        \<and> real_of_int (sint sz) / (1024 * 1024) > maxMB \<longrightarrow>
        worker files maxMB False job = (None, None))"
proof (intro conjI impI ballI)
  fix d
  assume ok: "Collect S fs rootPath f maxDepth maxMB = Inr r" and d: "d \<in> set (Files r)"
  define jobs where "jobs = fileJobs (snd (enumerate_jobs fs rootPath f maxDepth))"
  from Collect_file_origin [OF ok d] obtain i m where
    i: "i < length jobs" and
    m: "fst (worker (file_at fs) maxMB (ctx_done_at S i) (jobs ! i)) = Some m"
       "err m = None" "data m = d"
    unfolding jobs_def by blast
  note w = worker_data [OF m(1) m(2)]
  have "jobs ! i \<in> set jobs" using i by simp
  moreover have "RelPath d = relPath (jobs ! i)"
    using w(3) m(3) by simp
  moreover have "NUL \<notin> set (fst (first_read (file_at fs (fullPath (jobs ! i)))))"
    using isBinaryFile_text(2) [OF w(2)] .
  moreover have "stat_res (file_at fs (fullPath (jobs ! i))) = Inr (Size d)"
    using w(4) m(3) by simp
  moreover have fl: "maxMB > 0 \<longrightarrow> float64_of_int (sint (Size d)) / (1024 * 1024) \<le> maxMB"
    using w(6) m(3) by auto
  moreover have "maxMB > 0 \<and> \<bar>sint (Size d)\<bar> < 2 ^ 53 \<longrightarrow>
                real_of_int (sint (Size d)) / (1024 * 1024) \<le> maxMB"
    using fl by (auto simp: float64_of_int_exact)
  ultimately show "\<exists>job \<in> set (fileJobs (snd (enumerate_jobs fs rootPath f maxDepth))).
           RelPath d = relPath job
           \<and> NUL \<notin> set (fst (first_read (file_at fs (fullPath job))))
           \<and> stat_res (file_at fs (fullPath job)) = Inr (Size d)
           \<and> (maxMB > 0 \<longrightarrow> float64_of_int (sint (Size d)) / (1024 * 1024) \<le> maxMB)
           \<and> (maxMB > 0 \<and> \<bar>sint (Size d)\<bar> < 2 ^ 53 \<longrightarrow>
                real_of_int (sint (Size d)) / (1024 * 1024) \<le> maxMB)"
    unfolding jobs_def by blast
next
  assume "NUL \<in> set (fst (first_read (files (fullPath job))))"
  then show "worker files maxMB False job = (None, None)"
    unfolding worker_def isBinaryFile_def
    by (auto split: option.splits prod.splits)
next
  assume "stat_res (files (fullPath job)) = Inr sz \<and> maxMB > 0
        \<and> float64_of_int (sint sz) / (1024 * 1024) > maxMB"
  then show "worker files maxMB False job = (None, None)"
    unfolding worker_def
    by (auto simp: Let_def split: option.splits prod.splits)
next
  assume "stat_res (files (fullPath job)) = Inr sz \<and> maxMB > 0 \<and> \<bar>sint sz\<bar> < 2 ^ 53
        \<and> real_of_int (sint sz) / (1024 * 1024) > maxMB"
  then have "stat_res (files (fullPath job)) = Inr sz \<and> maxMB > 0
        \<and> float64_of_int (sint sz) / (1024 * 1024) > maxMB"
    by (simp add: float64_of_int_exact)
  then show "worker files maxMB False job = (None, None)"
    unfolding worker_def
    by (auto simp: Let_def split: option.splits prod.splits)
qed

theorem Collect_files_text_and_within_limit_witness:
  "(\<exists>job \<in> set (fileJobs (snd (enumerate_jobs two_files ''root'' default_filter 0))).
       ''a.txt'' = relPath job
       \<and> NUL \<notin> set (fst (first_read (file_at two_files (fullPath job))))
       \<and> stat_res (file_at two_files (fullPath job)) = Inr 5
       \<and> float64_of_int (sint (5 :: 64 word)) / (1024 * 1024) \<le> (10 :: real)
       \<and> real_of_int (sint (5 :: 64 word)) / (1024 * 1024) \<le> (10 :: real))
   \<and> worker (\<lambda>path. regular_file [NUL]) 10 False
         \<lparr>fullPath = ''root/a.txt'', relPath = ''a.txt''\<rparr> = (None, None)
   \<and> worker (\<lambda>path. regular_file (replicate 20000000 CHR ''x'')) 10 False
         \<lparr>fullPath = ''root/a.txt'', relPath = ''a.txt''\<rparr> = (None, None)"
proof -
  note inst = Collect_files_text_and_within_limit
    [of second_first two_files "''root''" default_filter 0 10 two_files_result]
  have "\<forall>d \<in> set (Files two_files_result).
         \<exists>job \<in> set (fileJobs (snd (enumerate_jobs two_files ''root'' default_filter 0))).
           RelPath d = relPath job
           \<and> NUL \<notin> set (fst (first_read (file_at two_files (fullPath job))))
           \<and> stat_res (file_at two_files (fullPath job)) = Inr (Size d)
           \<and> ((10 :: real) > 0 \<longrightarrow> float64_of_int (sint (Size d)) / (1024 * 1024) \<le> 10)
           \<and> ((10 :: real) > 0 \<and> \<bar>sint (Size d)\<bar> < 2 ^ 53 \<longrightarrow>
                real_of_int (sint (Size d)) / (1024 * 1024) \<le> 10)"
    using inst two_files_Collect by blast
  then have first: "\<exists>job \<in> set (fileJobs (snd (enumerate_jobs two_files ''root'' default_filter 0))).
       ''a.txt'' = relPath job
       \<and> NUL \<notin> set (fst (first_read (file_at two_files (fullPath job))))
       \<and> stat_res (file_at two_files (fullPath job)) = Inr 5
       \<and> float64_of_int (sint (5 :: 64 word)) / (1024 * 1024) \<le> (10 :: real)
       \<and> real_of_int (sint (5 :: 64 word)) / (1024 * 1024) \<le> (10 :: real)"
    by (simp add: two_files_result_def)
  have second: "worker (\<lambda>path. regular_file [NUL]) 10 False
         \<lparr>fullPath = ''root/a.txt'', relPath = ''a.txt''\<rparr> = (None, None)"
    using Collect_files_text_and_within_limit
      [of _ _ _ _ _ 10 _ "\<lambda>path. regular_file [NUL]"
          "\<lparr>fullPath = ''root/a.txt'', relPath = ''a.txt''\<rparr>"]
    by (simp add: regular_file_def)
  have third: "worker (\<lambda>path. regular_file (replicate 20000000 CHR ''x'')) 10 False
         \<lparr>fullPath = ''root/a.txt'', relPath = ''a.txt''\<rparr> = (None, None)"
    using Collect_files_text_and_within_limit
      [of _ _ _ _ _ 10 _ "\<lambda>path. regular_file (replicate 20000000 CHR ''x'')"
          "\<lparr>fullPath = ''root/a.txt'', relPath = ''a.txt''\<rparr>" 20000000]
    by (simp add: regular_file_def)
  from first second third show ?thesis by blast
qed

lemma size_over_2_53_jobs:
  "enumerate_jobs size_over_2_53 ''root'' default_filter 0 =
     (None, \<lparr>fileJobs = [\<lparr>fullPath = ''root/a.txt'', relPath = ''a.txt''\<rparr>,
                          \<lparr>fullPath = ''root/sub/b.txt'', relPath = ''sub/b.txt''\<rparr>],
             visitedDirs = (\<lambda>_. False), listed = [''root'', ''root/sub'']\<rparr>)"
  by (simp add: enumerate_jobs_def WalkDir_def size_over_2_53_def walkFn_def visit_entry_def
      Rel_def Join_def HasPrefix_def Count_def PathSeparator_def
      include_sub_dummy_go include_sub_b_txt include_a_txt)

lemma sint_over_2_53: "sint (9007199254740993 :: 64 word) = 9007199254740993"
  by simp

lemma size_over_2_53_workers:
  "worker (file_at size_over_2_53) 8589934592 False
     \<lparr>fullPath = ''root/a.txt'', relPath = ''a.txt''\<rparr> =
     (Some \<lparr>data = \<lparr>RelPath = ''a.txt'', Content = ''x'', Size = 9007199254740993,
                    Language = ''text''\<rparr>,
            err = None\<rparr>, None)"
  "worker (file_at size_over_2_53) 8589934592 False
     \<lparr>fullPath = ''root/sub/b.txt'', relPath = ''sub/b.txt''\<rparr> =
     (Some \<lparr>data = \<lparr>RelPath = ''sub/b.txt'', Content = ''hi'', Size = 2, Language = ''text''\<rparr>,
            err = None\<rparr>, None)"
  by (simp_all add: worker_def isBinaryFile_def size_over_2_53_def regular_file_def NUL_def
      getLanguage_txt float64_of_int_exact sint_over_2_53 float64_of_int_rounds
      del: sint_numeral)

text \<open>
  C3 as stated fails: \<^verbatim>\<open>os.Stat\<close> reports \<open>2 ^ 53 + 1\<close> bytes for \<^verbatim>\<open>root/a.txt\<close>, the limit is
  \<open>2 ^ 33\<close> megabytes, and the conversion to \<^verbatim>\<open>float64\<close> rounds the size to \<open>2 ^ 53\<close>
  bytes, which is the limit and not more. The record is collected, and its size in
  megabytes exceeds the limit.
\<close>

theorem size_over_limit_counterexample:
  "Collect second_first size_over_2_53 ''root'' default_filter 0 8589934592
     = Inr size_over_2_53_result
   \<and> Size (hd (Files size_over_2_53_result)) = 9007199254740993
   \<and> (8589934592 :: real) > 0
   \<and> real_of_int (sint (9007199254740993 :: 64 word)) / (1024 * 1024) > 8589934592"
proof -
  have "Collect second_first size_over_2_53 ''root'' default_filter 0 8589934592
     = Inr size_over_2_53_result"
    by (simp add: Collect_def size_over_2_53_jobs Let_def second_first_def ctx_done_at_def
        size_over_2_53_workers size_over_2_53_result_def upt_rec [of 0] upt_rec [of 1])
  moreover have "Size (hd (Files size_over_2_53_result)) = 9007199254740993"
    by (simp add: size_over_2_53_result_def)
  moreover have "real_of_int (sint (9007199254740993 :: 64 word)) / (1024 * 1024) > 8589934592"
    unfolding sint_over_2_53 by simp
  ultimately show ?thesis by simp
qed

text \<open>
  C9. A file of zero bytes is never collected: the single read of \<^verbatim>\<open>isBinaryFile\<close> answers
  no byte and \<^verbatim>\<open>io.EOF\<close>, the worker sends nothing and returns no error, whatever the size
  limit, and no record of a result comes from such a file.
\<close>

theorem zero_byte_file_not_collected:
  "(files (fullPath job) = regular_file [] \<longrightarrow>
      isBinaryFile files (fullPath job) = (False, Some EOF)
      \<and> worker files maxMB False job = (None, None))
   \<and> (Collect S fs rootPath f maxDepth maxMB = Inr r \<longrightarrow>
        (\<forall>d \<in> set (Files r).
           \<exists>job \<in> set (fileJobs (snd (enumerate_jobs fs rootPath f maxDepth))).
             RelPath d = relPath job \<and> file_at fs (fullPath job) \<noteq> regular_file []))"
proof (intro conjI impI ballI)
  assume e: "files (fullPath job) = regular_file []"
  show b: "isBinaryFile files (fullPath job) = (False, Some EOF)"
    unfolding isBinaryFile_def e by (simp add: regular_file_def)
  show "worker files maxMB False job = (None, None)"
    unfolding worker_def b by simp
next
  fix d
  assume ok: "Collect S fs rootPath f maxDepth maxMB = Inr r" and d: "d \<in> set (Files r)"
  define jobs where "jobs = fileJobs (snd (enumerate_jobs fs rootPath f maxDepth))"
  from Collect_file_origin [OF ok d] obtain i m where
    i: "i < length jobs" and
    m: "fst (worker (file_at fs) maxMB (ctx_done_at S i) (jobs ! i)) = Some m"
       "err m = None" "data m = d"
    unfolding jobs_def by blast
  note w = worker_data [OF m(1) m(2)]
  have "file_at fs (fullPath (jobs ! i)) \<noteq> regular_file []"
  proof
    assume "file_at fs (fullPath (jobs ! i)) = regular_file []"
    then have "isBinaryFile (file_at fs) (fullPath (jobs ! i)) = (False, Some EOF)"
      unfolding isBinaryFile_def by (simp add: regular_file_def)
    with w(2) show False by simp
  qed
  moreover have "jobs ! i \<in> set jobs" using i by simp
  moreover have "RelPath d = relPath (jobs ! i)" using w(3) m(3) by simp
  ultimately show "\<exists>job \<in> set (fileJobs (snd (enumerate_jobs fs rootPath f maxDepth))).
             RelPath d = relPath job \<and> file_at fs (fullPath job) \<noteq> regular_file []"
    unfolding jobs_def by blast
qed


lemma empty_and_text_jobs:
  "enumerate_jobs empty_and_text ''root'' default_filter 0 =
     (None, \<lparr>fileJobs = [\<lparr>fullPath = ''root/a.txt'', relPath = ''a.txt''\<rparr>,
                          \<lparr>fullPath = ''root/sub/b.txt'', relPath = ''sub/b.txt''\<rparr>],
             visitedDirs = (\<lambda>_. False), listed = [''root'', ''root/sub'']\<rparr>)"
  by (simp add: enumerate_jobs_def WalkDir_def empty_and_text_def walkFn_def visit_entry_def
      Rel_def Join_def HasPrefix_def Count_def PathSeparator_def
      include_sub_dummy_go include_sub_b_txt include_a_txt)

lemma empty_and_text_second_worker:
  "worker (file_at empty_and_text) 0 False
     \<lparr>fullPath = ''root/sub/b.txt'', relPath = ''sub/b.txt''\<rparr> =
     (Some \<lparr>data = \<lparr>RelPath = ''sub/b.txt'', Content = ''hi'', Size = 2, Language = ''text''\<rparr>,
            err = None\<rparr>, None)"
  by (simp add: worker_def isBinaryFile_def empty_and_text_def regular_file_def NUL_def
      getLanguage_txt float64_of_int_exact)

theorem zero_byte_file_not_collected_witness:
  "ShouldInclude default_filter ''a.txt''
   \<and> worker (file_at empty_and_text) 0 False
         \<lparr>fullPath = ''root/a.txt'', relPath = ''a.txt''\<rparr> = (None, None)
   \<and> Collect second_first empty_and_text ''root'' default_filter 0 0
       = Inr empty_and_text_result"
proof -
  have first: "worker (file_at empty_and_text) 0 False
         \<lparr>fullPath = ''root/a.txt'', relPath = ''a.txt''\<rparr> = (None, None)"
    using zero_byte_file_not_collected
      [of "file_at empty_and_text" "\<lparr>fullPath = ''root/a.txt'', relPath = ''a.txt''\<rparr>" 0]
    by (simp add: empty_and_text_def)
  have "Collect second_first empty_and_text ''root'' default_filter 0 0
       = Inr empty_and_text_result"
    by (simp add: Collect_def empty_and_text_jobs Let_def second_first_def ctx_done_at_def
        first empty_and_text_second_worker empty_and_text_result_def
        upt_rec [of 0] upt_rec [of 1])
  with first include_a_txt show ?thesis by blast
qed

lemma enumerate_jobs_no_error: "fst (enumerate_jobs fs rootPath f maxDepth) = None"
  unfolding enumerate_jobs_def WalkDir_def
  by (simp split: option.splits prod.splits)

lemma eg_Wait_None: "eg_Wait es = None \<longleftrightarrow> (\<forall>e \<in> set es. e = None)"
  by (induction es rule: eg_Wait.induct) auto

lemma eg_Wait_Some:
  "\<forall>e \<in> set es. e = None \<or> e = Some x \<Longrightarrow> Some x \<in> set es \<Longrightarrow> eg_Wait es = Some x"
  by (induction es rule: eg_Wait.induct) auto

lemma worker_error: "snd (worker files maxMB done job) = (if done then Some Canceled else None)"
  unfolding worker_def
  by (auto simp: Let_def split: prod.splits sum.splits option.splits)

lemma channel_cong:
  "(\<And>i. i < n \<Longrightarrow> sent i = sent' i) \<Longrightarrow> channel sent n arr = channel sent' n arr"
  by (induction arr) (auto split: option.splits)

lemma channel_set:
  "set (channel sent n arr) = {m. \<exists>i \<in> set arr. i < n \<and> sent i = Some m}"
  by (induction arr) (auto split: option.splits)

lemma Collect_not_done:
  assumes "\<forall>i < length (fileJobs (snd (enumerate_jobs fs rootPath f maxDepth))). \<not> ctx_done_at S i"
  shows "Collect S fs rootPath f maxDepth maxMB =
     Inr (let jobs = fileJobs (snd (enumerate_jobs fs rootPath f maxDepth));
              result = aggregate
                         (channel (\<lambda>i. fst (worker (file_at fs) maxMB False (jobs ! i)))
                            (length jobs) (arrival S))
                         \<lparr>Files = [], TotalSize = 0, FileCount = 0\<rparr>;
              sorted_files = sort_key RelPath (Files result)
          in result\<lparr>Files := sorted_files, FileCount := int (length sorted_files)\<rparr>)"
proof -
  define jobs where "jobs = fileJobs (snd (enumerate_jobs fs rootPath f maxDepth))"
  define run where "run = (\<lambda>i. worker (file_at fs) maxMB (ctx_done_at S i) (jobs ! i))"
  define errs where "errs = map (\<lambda>i. snd (run i)) [0..<length jobs]"
  obtain st where st: "enumerate_jobs fs rootPath f maxDepth = (None, st)"
    using enumerate_jobs_no_error [of fs rootPath f maxDepth]
    by (cases "enumerate_jobs fs rootPath f maxDepth") auto
  have jobs: "jobs = fileJobs st" unfolding jobs_def st by simp
  have C: "Collect S fs rootPath f maxDepth maxMB =
     (case eg_Wait errs of
        Some e \<Rightarrow> Inl e
      | None \<Rightarrow>
         (let result = aggregate (channel (\<lambda>i. fst (run i)) (length jobs) (arrival S))
                         \<lparr>Files = [], TotalSize = 0, FileCount = 0\<rparr>;
              sorted_files = sort_key RelPath (Files result)
          in Inr (result\<lparr>Files := sorted_files, FileCount := int (length sorted_files)\<rparr>)))"
    unfolding Collect_def st errs_def run_def jobs
    by (simp add: Let_def split: option.splits)
  have nd: "\<forall>i < length jobs. \<not> ctx_done_at S i"
    using assms unfolding jobs_def .
  then have "\<forall>e \<in> set errs. e = None"
    unfolding errs_def run_def by (auto simp: worker_error)
  then have none: "eg_Wait errs = None"
    by (simp add: eg_Wait_None)
  have chan: "channel (\<lambda>i. fst (run i)) (length jobs) (arrival S)
            = channel (\<lambda>i. fst (worker (file_at fs) maxMB False (jobs ! i))) (length jobs) (arrival S)"
    by (rule channel_cong) (use nd in \<open>simp add: run_def\<close>)
  show ?thesis
    unfolding C none chan jobs_def [symmetric] by (simp add: Let_def)
qed

text \<open>
  C7, as amended. When the context is cancelled no later than the check that some worker
  makes at its start, \<^verbatim>\<open>Collect\<close> fails with \<^verbatim>\<open>context.Canceled\<close> and returns no result.
  When every worker has made its check before the cancellation, or there is none, the
  call returns what it returns without the cancellation: a result, whatever the calls on
  the files answer, so that no failure to open, measure or read a file makes it fail; and
  when every worker reaches the channel once, the records of the result are the records
  of all the workers that produce one.
\<close>

theorem Collect_cancellation:
  "((\<exists>i < length (fileJobs (snd (enumerate_jobs fs rootPath f maxDepth))).
        \<exists>t. cancelAt S = Some t \<and> t \<le> checkAt S i)
      \<longrightarrow> Collect S fs rootPath f maxDepth maxMB = Inl Canceled)
   \<and> ((\<forall>i < length (fileJobs (snd (enumerate_jobs fs rootPath f maxDepth))).
         \<forall>t. cancelAt S = Some t \<longrightarrow> checkAt S i < t)
      \<longrightarrow> Collect S fs rootPath f maxDepth maxMB
            = Collect (S\<lparr>cancelAt := None\<rparr>) fs rootPath f maxDepth maxMB
          \<and> (\<exists>r. Collect S fs rootPath f maxDepth maxMB = Inr r
                \<and> (schedule_ok S (length (fileJobs (snd (enumerate_jobs fs rootPath f maxDepth))))
                     \<longrightarrow> set (Files r) =
                          {d. \<exists>i < length (fileJobs (snd (enumerate_jobs fs rootPath f maxDepth))).
                                fst (worker (file_at fs) maxMB False
                                       (fileJobs (snd (enumerate_jobs fs rootPath f maxDepth)) ! i))
                                  = Some \<lparr>data = d, err = None\<rparr>})))"
proof -
  define jobs where "jobs = fileJobs (snd (enumerate_jobs fs rootPath f maxDepth))"
  define run where "run = (\<lambda>i. worker (file_at fs) maxMB (ctx_done_at S i) (jobs ! i))"
  define errs where "errs = map (\<lambda>i. snd (run i)) [0..<length jobs]"
  obtain st where st: "enumerate_jobs fs rootPath f maxDepth = (None, st)"
    using enumerate_jobs_no_error [of fs rootPath f maxDepth]
    by (cases "enumerate_jobs fs rootPath f maxDepth") auto
  have jobs: "jobs = fileJobs st" unfolding jobs_def st by simp
  have C: "Collect S fs rootPath f maxDepth maxMB =
     (case eg_Wait errs of
        Some e \<Rightarrow> Inl e
      | None \<Rightarrow>
         (let result = aggregate (channel (\<lambda>i. fst (run i)) (length jobs) (arrival S))
                         \<lparr>Files = [], TotalSize = 0, FileCount = 0\<rparr>;
              sorted_files = sort_key RelPath (Files result)
          in Inr (result\<lparr>Files := sorted_files, FileCount := int (length sorted_files)\<rparr>)))"
    unfolding Collect_def st errs_def run_def jobs
    by (simp add: Let_def split: option.splits)
  have errs: "\<forall>e \<in> set errs. e = None \<or> e = Some Canceled"
    unfolding errs_def run_def by (auto simp: worker_error)
  have first: "Collect S fs rootPath f maxDepth maxMB = Inl Canceled"
    if "\<exists>i < length jobs. \<exists>t. cancelAt S = Some t \<and> t \<le> checkAt S i"
  proof -
    from that obtain i where i: "i < length jobs" "ctx_done_at S i"
      unfolding ctx_done_at_def by auto
    then have "snd (run i) = Some Canceled"
      unfolding run_def by (simp add: worker_error)
    then have "Some Canceled \<in> set errs"
      unfolding errs_def using i(1) by force
    from eg_Wait_Some [OF errs this] show ?thesis
      unfolding C by simp
  qed
  have second: "Collect S fs rootPath f maxDepth maxMB
            = Collect (S\<lparr>cancelAt := None\<rparr>) fs rootPath f maxDepth maxMB
          \<and> (\<exists>r. Collect S fs rootPath f maxDepth maxMB = Inr r
                \<and> (schedule_ok S (length jobs)
                     \<longrightarrow> set (Files r) =
                          {d. \<exists>i < length jobs.
                                fst (worker (file_at fs) maxMB False (jobs ! i))
                                  = Some \<lparr>data = d, err = None\<rparr>}))"
    if late: "\<forall>i < length jobs. \<forall>t. cancelAt S = Some t \<longrightarrow> checkAt S i < t"
  proof -
    define chan where "chan = channel (\<lambda>i. fst (worker (file_at fs) maxMB False (jobs ! i)))
                            (length jobs) (arrival S)"
    define agg where "agg = aggregate chan \<lparr>Files = [], TotalSize = 0, FileCount = 0\<rparr>"
    define r where "r = agg\<lparr>Files := sort_key RelPath (Files agg),
                            FileCount := int (length (sort_key RelPath (Files agg)))\<rparr>"
    have nd: "\<forall>i < length jobs. \<not> ctx_done_at S i"
      using late unfolding ctx_done_at_def by (auto split: option.splits)
    have nd': "\<forall>i < length jobs. \<not> ctx_done_at (S\<lparr>cancelAt := None\<rparr>) i"
      by (simp add: ctx_done_at_def)
    have with_cancel: "Collect S fs rootPath f maxDepth maxMB = Inr r"
      unfolding r_def agg_def chan_def jobs_def
      using Collect_not_done [OF nd [unfolded jobs_def], of maxMB, unfolded Let_def] .
    have "arrival (S\<lparr>cancelAt := None\<rparr>) = arrival S"
      by simp
    then have without: "Collect (S\<lparr>cancelAt := None\<rparr>) fs rootPath f maxDepth maxMB = Inr r"
      unfolding r_def agg_def chan_def jobs_def
      using Collect_not_done [OF nd' [unfolded jobs_def], of maxMB, unfolded Let_def]
      by (simp only:)
    have complete: "set (Files r) =
        {d. \<exists>i < length jobs. fst (worker (file_at fs) maxMB False (jobs ! i))
                                  = Some \<lparr>data = d, err = None\<rparr>}"
      if ok: "schedule_ok S (length jobs)"
    proof -
      have "mset (arrival S) = mset [0..<length jobs]"
        using ok unfolding schedule_ok_def by (rule conjunct2)
      then have "set (arrival S) = set [0..<length jobs]"
        by (rule mset_eq_setD)
      also have "set [0..<length jobs] = {i. i < length jobs}"
        by auto
      finally have arr: "set (arrival S) = {i. i < length jobs}" .
      define sent where "sent = (\<lambda>i. fst (worker (file_at fs) maxMB False (jobs ! i)))"
      have chan: "set chan = {m. \<exists>i. i < length jobs \<and> sent i = Some m}"
        unfolding chan_def sent_def [symmetric] channel_set arr by blast
      have "Files agg = map data (filter (\<lambda>m. err m = None) chan)"
        unfolding agg_def aggregate_Files by simp
      moreover have "set (Files r) = set (Files agg)"
        unfolding r_def by simp
      ultimately have files: "set (Files r) = data ` {m \<in> set chan. err m = None}"
        by simp
      have rec: "m = \<lparr>data = data m, err = None\<rparr>" if "err m = None" for m :: fileResult
        using that by (cases m) simp
      have "set (Files r) = {d. \<exists>i < length jobs. sent i = Some \<lparr>data = d, err = None\<rparr>}"
      proof (intro set_eqI iffI)
        fix d
        assume "d \<in> set (Files r)"
        then obtain m where m: "m \<in> set chan" "err m = None" "d = data m"
          unfolding files by blast
        from m(1) obtain i where i: "i < length jobs" "sent i = Some m"
          unfolding chan by blast
        have eq: "m = \<lparr>data = d, err = None\<rparr>"
          unfolding m(3) by (rule rec [OF m(2)])
        have "sent i = Some \<lparr>data = d, err = None\<rparr>"
          using i(2) unfolding eq .
        with i(1) show "d \<in> {d. \<exists>i < length jobs. sent i = Some \<lparr>data = d, err = None\<rparr>}"
          by blast
      next
        fix d
        assume "d \<in> {d. \<exists>i < length jobs. sent i = Some \<lparr>data = d, err = None\<rparr>}"
        then obtain i where i: "i < length jobs" "sent i = Some \<lparr>data = d, err = None\<rparr>"
          by blast
        then have "\<lparr>data = d, err = None\<rparr> \<in> set chan"
          unfolding chan by blast
        then have "data \<lparr>data = d, err = None\<rparr> \<in> set (Files r)"
          unfolding files by (intro imageI) simp
        then show "d \<in> set (Files r)" by simp
      qed
      then show ?thesis unfolding sent_def .
    qed
    show ?thesis
    proof (intro conjI exI [of _ r] impI)
      show "Collect S fs rootPath f maxDepth maxMB
            = Collect (S\<lparr>cancelAt := None\<rparr>) fs rootPath f maxDepth maxMB"
        using with_cancel without by simp
      show "Collect S fs rootPath f maxDepth maxMB = Inr r"
        by (rule with_cancel)
      assume "schedule_ok S (length jobs)"
      then show "set (Files r) =
          {d. \<exists>i < length jobs. fst (worker (file_at fs) maxMB False (jobs ! i))
                                  = Some \<lparr>data = d, err = None\<rparr>}"
        by (rule complete)
    qed
  qed
  show ?thesis
    unfolding jobs_def [symmetric]
  proof (rule conjI)
    show "(\<exists>i < length jobs. \<exists>t. cancelAt S = Some t \<and> t \<le> checkAt S i)
      \<longrightarrow> Collect S fs rootPath f maxDepth maxMB = Inl Canceled"
      by (rule impI) (rule first)
    show "(\<forall>i < length jobs. \<forall>t. cancelAt S = Some t \<longrightarrow> checkAt S i < t)
      \<longrightarrow> Collect S fs rootPath f maxDepth maxMB
            = Collect (S\<lparr>cancelAt := None\<rparr>) fs rootPath f maxDepth maxMB
          \<and> (\<exists>r. Collect S fs rootPath f maxDepth maxMB = Inr r
                \<and> (schedule_ok S (length jobs)
                     \<longrightarrow> set (Files r) =
                          {d. \<exists>i < length jobs.
                                fst (worker (file_at fs) maxMB False (jobs ! i))
                                  = Some \<lparr>data = d, err = None\<rparr>}))"
      by (rule impI) (rule second)
  qed
qed

lemma two_files_late_cancel:
  "Collect late_cancel two_files ''root'' default_filter 0 10 = Inr two_files_result"
  by (simp add: Collect_def two_files_jobs Let_def late_cancel_def ctx_done_at_def
      two_files_workers two_files_result_def upt_rec [of 0] upt_rec [of 1])

lemma upt_0_2: "[0..<2] = [0, 1]"
  by (simp add: numeral_2_eq_2)

text \<open>
  C7 as stated fails: with both workers past their check at instant 0, a cancellation at
  instant 1 finds the batch in progress, no worker returns before instant 2, and
  \<^verbatim>\<open>Collect\<close> returns the whole result.
\<close>

theorem cancelled_in_progress_counterexample:
  "schedule_ok late_cancel 2
   \<and> cancelAt late_cancel = Some 1
   \<and> in_progress late_cancel 2 1
   \<and> length (fileJobs (snd (enumerate_jobs two_files ''root'' default_filter 0))) = 2
   \<and> Collect late_cancel two_files ''root'' default_filter 0 10 = Inr two_files_result"
proof -
  have "schedule_ok late_cancel 2"
    unfolding schedule_ok_def upt_0_2 by (simp add: late_cancel_def)
  moreover have "cancelAt late_cancel = Some 1"
    by (simp add: late_cancel_def)
  moreover have "in_progress late_cancel 2 1"
    unfolding in_progress_def upt_0_2 by (simp add: late_cancel_def)
  moreover have "length (fileJobs (snd (enumerate_jobs two_files ''root'' default_filter 0))) = 2"
    by (simp add: two_files_jobs)
  ultimately show ?thesis
    using two_files_late_cancel by blast
qed

lemma read_fails_jobs:
  "fileJobs (snd (enumerate_jobs read_fails ''root'' default_filter 0)) =
     [\<lparr>fullPath = ''root/a.txt'', relPath = ''a.txt''\<rparr>,
      \<lparr>fullPath = ''root/sub/b.txt'', relPath = ''sub/b.txt''\<rparr>]"
  by (simp add: enumerate_jobs_def WalkDir_def read_fails_def walkFn_def visit_entry_def
      Rel_def Join_def HasPrefix_def Count_def PathSeparator_def
      include_sub_dummy_go include_sub_b_txt include_a_txt)

lemma read_fails_worker:
  "fst (worker (file_at read_fails) 10 False job) = Some \<lparr>data = no_data, err = Some OSError\<rparr>"
  by (simp add: worker_def isBinaryFile_def read_fails_def NUL_def float64_of_int_exact)

theorem Collect_cancellation_witness:
  "Collect early_cancel two_files ''root'' default_filter 0 10 = Inl Canceled
   \<and> Collect late_cancel two_files ''root'' default_filter 0 10
       = Collect (late_cancel\<lparr>cancelAt := None\<rparr>) two_files ''root'' default_filter 0 10
   \<and> (\<exists>r. Collect late_cancel two_files ''root'' default_filter 0 10 = Inr r
         \<and> set (Files r) =
             {\<lparr>RelPath = ''a.txt'', Content = ''hello'', Size = 5, Language = ''text''\<rparr>,
              \<lparr>RelPath = ''sub/b.txt'', Content = ''hi'', Size = 2, Language = ''text''\<rparr>})
   \<and> (\<exists>r. Collect second_first read_fails ''root'' default_filter 0 10 = Inr r
         \<and> set (Files r) = {})"
proof -
  have early: "\<exists>i < length (fileJobs (snd (enumerate_jobs two_files ''root'' default_filter 0))).
           \<exists>t. cancelAt early_cancel = Some t \<and> t \<le> checkAt early_cancel i"
    by (rule exI [of _ 1]) (simp add: two_files_jobs early_cancel_def)
  have late: "\<forall>i < length (fileJobs (snd (enumerate_jobs two_files ''root'' default_filter 0))).
           \<forall>t. cancelAt late_cancel = Some t \<longrightarrow> checkAt late_cancel i < t"
    by (simp add: late_cancel_def)
  have late_ok: "schedule_ok late_cancel
      (length (fileJobs (snd (enumerate_jobs two_files ''root'' default_filter 0))))"
    unfolding two_files_jobs by (simp add: schedule_ok_def upt_0_2 late_cancel_def)
  have never: "\<forall>i < length (fileJobs (snd (enumerate_jobs read_fails ''root'' default_filter 0))).
           \<forall>t. cancelAt second_first = Some t \<longrightarrow> checkAt second_first i < t"
    by (simp add: second_first_def)
  have never_ok: "schedule_ok second_first
      (length (fileJobs (snd (enumerate_jobs read_fails ''root'' default_filter 0))))"
    unfolding read_fails_jobs by (simp add: schedule_ok_def upt_0_2 second_first_def)
  have one: "Collect early_cancel two_files ''root'' default_filter 0 10 = Inl Canceled"
    using Collect_cancellation [of two_files "''root''" default_filter 0 early_cancel 10] early
    by blast
  have two: "Collect late_cancel two_files ''root'' default_filter 0 10
       = Collect (late_cancel\<lparr>cancelAt := None\<rparr>) two_files ''root'' default_filter 0 10"
    using Collect_cancellation [of two_files "''root''" default_filter 0 late_cancel 10] late
    by blast
  have "\<exists>r. Collect late_cancel two_files ''root'' default_filter 0 10 = Inr r
         \<and> set (Files r) =
             {d. \<exists>i < length (fileJobs (snd (enumerate_jobs two_files ''root'' default_filter 0))).
                   fst (worker (file_at two_files) 10 False
                          (fileJobs (snd (enumerate_jobs two_files ''root'' default_filter 0)) ! i))
                     = Some \<lparr>data = d, err = None\<rparr>}"
    using Collect_cancellation [of two_files "''root''" default_filter 0 late_cancel 10]
      late late_ok by blast
  moreover have "{d. \<exists>i < length (fileJobs (snd (enumerate_jobs two_files ''root'' default_filter 0))).
                   fst (worker (file_at two_files) 10 False
                          (fileJobs (snd (enumerate_jobs two_files ''root'' default_filter 0)) ! i))
                     = Some \<lparr>data = d, err = None\<rparr>}
       = {\<lparr>RelPath = ''a.txt'', Content = ''hello'', Size = 5, Language = ''text''\<rparr>,
          \<lparr>RelPath = ''sub/b.txt'', Content = ''hi'', Size = 2, Language = ''text''\<rparr>}"
    unfolding two_files_jobs by (auto simp: less_Suc_eq two_files_workers numeral_2_eq_2)
  ultimately have three: "\<exists>r. Collect late_cancel two_files ''root'' default_filter 0 10 = Inr r
         \<and> set (Files r) =
             {\<lparr>RelPath = ''a.txt'', Content = ''hello'', Size = 5, Language = ''text''\<rparr>,
              \<lparr>RelPath = ''sub/b.txt'', Content = ''hi'', Size = 2, Language = ''text''\<rparr>}"
    by simp
  have "\<exists>r. Collect second_first read_fails ''root'' default_filter 0 10 = Inr r
         \<and> set (Files r) =
             {d. \<exists>i < length (fileJobs (snd (enumerate_jobs read_fails ''root'' default_filter 0))).
                   fst (worker (file_at read_fails) 10 False
                          (fileJobs (snd (enumerate_jobs read_fails ''root'' default_filter 0)) ! i))
                     = Some \<lparr>data = d, err = None\<rparr>}"
    using Collect_cancellation [of read_fails "''root''" default_filter 0 second_first 10]
      never never_ok by blast
  then have four: "\<exists>r. Collect second_first read_fails ''root'' default_filter 0 10 = Inr r
         \<and> set (Files r) = {}"
    by (simp add: read_fails_worker)
  from one two three four show ?thesis by blast
qed

lemma distinct_through:
  assumes "distinct (map g xs)" and "\<forall>x \<in> set xs. g x = h (k x)"
  shows "distinct (map k xs)"
proof -
  have "map g xs = map h (map k xs)"
    using assms(2) by simp
  with assms(1) show ?thesis
    by (metis distinct_map)
qed

lemma Rel_below:
  assumes "prefix (rootPath @ [PathSeparator]) q" and "Rel rootPath q = Some rel"
  shows "q = rootPath @ [PathSeparator] @ rel"
proof -
  from assms(1) obtain r where q: "q = rootPath @ [PathSeparator] @ r"
    by (auto simp: prefix_def)
  then have "q \<noteq> rootPath" by simp
  with assms(2) q show ?thesis
    unfolding Rel_def by (simp add: HasPrefix_prefix split: if_splits)
qed

lemma enumerate_jobs_distinct:
  assumes "tree_ok fs"
  shows "distinct (map relPath (fileJobs (snd (enumerate_jobs fs rootPath f maxDepth))))"
proof (cases "tree fs")
  case None
  then show ?thesis
    unfolding enumerate_jobs_def WalkDir_def walkFn_def by simp
next
  case (Some n)
  define init where "init = \<lparr>fileJobs = [], visitedDirs = (\<lambda>_. False), listed = []\<rparr>"
  define st' where "st' = snd (walkDir (walkFn fs rootPath f maxDepth) rootPath n init)"
  have jobs: "fileJobs (snd (enumerate_jobs fs rootPath f maxDepth)) = fileJobs st'"
    unfolding enumerate_jobs_def WalkDir_def Some st'_def init_def
    by (simp split: prod.splits)
  have ok: "listing_ok n"
    using assms Some unfolding tree_ok_def by simp
  define region where "region = (if IsDir n
      then below_entries rootPath (case n of Dir e es \<Rightarrow> es | _ \<Rightarrow> [])
      else (\<lambda>q. q = rootPath))"
  have "adds_jobs rootPath region init st'"
    unfolding region_def st'_def using walk_adds(1) [OF ok] .
  then have new: "\<forall>j \<in> set (fileJobs st'). region (fullPath j)
                    \<and> Rel rootPath (fullPath j) = Some (relPath j)"
    and dist: "distinct (map fullPath (fileJobs st'))"
    unfolding adds_jobs_def init_def by auto
  have "\<exists>h. \<forall>j \<in> set (fileJobs st'). fullPath j = h (relPath j)"
  proof (cases "IsDir n")
    case True
    have "\<forall>j \<in> set (fileJobs st'). fullPath j = rootPath @ [PathSeparator] @ relPath j"
    proof
      fix j
      assume j: "j \<in> set (fileJobs st')"
      with new have "region (fullPath j)" and r: "Rel rootPath (fullPath j) = Some (relPath j)"
        by auto
      then have "prefix (rootPath @ [PathSeparator]) (fullPath j)"
        unfolding region_def using True by (auto simp: below_entries_def dest: under_Join)
      from Rel_below [OF this r] show "fullPath j = rootPath @ [PathSeparator] @ relPath j" .
    qed
    then show ?thesis
      by (intro exI [of _ "\<lambda>r. rootPath @ [PathSeparator] @ r"])
  next
    case False
    then have "\<forall>j \<in> set (fileJobs st'). fullPath j = (\<lambda>r. rootPath) (relPath j)"
      using new unfolding region_def by simp
    then show ?thesis
      by (intro exI [of _ "\<lambda>r. rootPath"])
  qed
  then obtain h where h: "\<forall>j \<in> set (fileJobs st'). fullPath j = h (relPath j)" ..
  show ?thesis
    unfolding jobs
    using distinct_through [of fullPath "fileJobs st'" h relPath] dist h by blast
qed

lemma channel_keys:
  assumes "\<And>i m. i < n \<Longrightarrow> sent i = Some m \<Longrightarrow> err m = None \<Longrightarrow> RelPath (data m) = key i"
  shows "map (\<lambda>m. RelPath (data m)) (filter (\<lambda>m. err m = None) (channel sent n arr))
       = map key (filter (\<lambda>i. i < n \<and> (\<exists>m. sent i = Some m \<and> err m = None)) arr)"
  using assms by (induction arr) (auto split: option.splits)

text \<open>
  C1. In every result \<^verbatim>\<open>Collect\<close> returns, the \<^verbatim>\<open>RelPath\<close> fields of \<^verbatim>\<open>Files\<close> ascend
  strictly in the order of bytes, so no two records share a \<^verbatim>\<open>RelPath\<close>: whatever the
  order in which the workers reach the channel, and whatever the order in which the
  directories list their entries.
\<close>

theorem Collect_sorted_distinct:
  assumes "Collect S fs rootPath f maxDepth maxMB = Inr r"
    and "tree_ok fs"
    and "schedule_ok S (length (fileJobs (snd (enumerate_jobs fs rootPath f maxDepth))))"
  shows "sorted_wrt (<) (map RelPath (Files r)) \<and> distinct (map RelPath (Files r))"
proof -
  define jobs where "jobs = fileJobs (snd (enumerate_jobs fs rootPath f maxDepth))"
  define run where "run = (\<lambda>i. worker (file_at fs) maxMB (ctx_done_at S i) (jobs ! i))"
  define chan where "chan = channel (\<lambda>i. fst (run i)) (length jobs) (arrival S)"
  define agg where "agg = aggregate chan \<lparr>Files = [], TotalSize = 0, FileCount = 0\<rparr>"
  have r: "r = agg\<lparr>Files := sort_key RelPath (Files agg),
                 FileCount := int (length (sort_key RelPath (Files agg)))\<rparr>"
    using Collect_Inr(1) [OF assms(1)] unfolding agg_def chan_def run_def jobs_def .
  have files: "Files agg = map data (filter (\<lambda>m. err m = None) chan)"
    unfolding agg_def by (simp add: aggregate_Files)
  have keys: "map RelPath (Files agg)
       = map (\<lambda>i. relPath (jobs ! i))
           (filter (\<lambda>i. i < length jobs \<and> (\<exists>m. fst (run i) = Some m \<and> err m = None))
              (arrival S))"
    unfolding files chan_def map_map comp_def
    by (rule channel_keys) (simp add: run_def worker_data(3))
  have "mset (arrival S) = mset [0..<length jobs]"
    using assms(3) unfolding schedule_ok_def jobs_def by simp
  then have "distinct (arrival S)"
    by (metis distinct_upt mset_eq_imp_distinct_iff)
  then have d1: "distinct (filter (\<lambda>i. i < length jobs \<and> (\<exists>m. fst (run i) = Some m \<and> err m = None))
              (arrival S))"
    by simp
  have dj: "distinct (map relPath jobs)"
    unfolding jobs_def using enumerate_jobs_distinct [OF assms(2)] .
  have inj: "inj_on (\<lambda>i. relPath (jobs ! i)) {i. i < length jobs}"
  proof (rule inj_onI)
    fix i k
    assume "i \<in> {i. i < length jobs}" "k \<in> {i. i < length jobs}"
      and e: "relPath (jobs ! i) = relPath (jobs ! k)"
    then have "i < length (map relPath jobs)" "k < length (map relPath jobs)"
      "map relPath jobs ! i = map relPath jobs ! k" by simp_all
    with dj show "i = k" by (simp add: nth_eq_iff_index_eq del: length_map nth_map)
  qed
  have "distinct (map RelPath (Files agg))"
    unfolding keys distinct_map
    using d1 by (auto intro: inj_on_subset [OF inj])
  then have dist: "distinct (map RelPath (Files r))"
    unfolding r by (simp add: distinct_map inj_on_def)
  have "sorted (map RelPath (Files r))"
    unfolding r by simp
  with dist have "sorted_wrt (<) (map RelPath (Files r))"
    by (simp add: strict_sorted_iff)
  with dist show ?thesis by blast
qed


lemma two_files_ok: "tree_ok two_files"
  by (simp add: tree_ok_def two_files_def name_ok_def PathSeparator_def)

lemma second_first_ok:
  "schedule_ok second_first (length (fileJobs (snd (enumerate_jobs two_files ''root'' default_filter 0))))"
  unfolding two_files_jobs by (simp add: schedule_ok_def upt_0_2 second_first_def)

theorem Collect_sorted_distinct_witness:
  "map RelPath (Files two_files_result) = [''a.txt'', ''sub/b.txt'']
   \<and> sorted_wrt (<) (map RelPath (Files two_files_result))
   \<and> distinct (map RelPath (Files two_files_result))"
  using Collect_sorted_distinct [OF two_files_Collect two_files_ok second_first_ok]
  by (simp add: two_files_result_def)

subsection \<open>Symbolic links, depth and the ignore file\<close>

lemmas walk_eval =
  enumerate_jobs_def WalkDir_def walkFn_def visit_entry_def Rel_def Join_def HasPrefix_def
  Count_def PathSeparator_def

text \<open>
  The traversal lists no directory twice, and no more directories than the tree has:
  \<^verbatim>\<open>WalkDir\<close> reports a link and does not follow it.
\<close>

lemma traversal_lists_no_directory_twice:
  assumes "tree_ok fs"
  shows "distinct (listed (snd (enumerate_jobs fs rootPath f maxDepth)))
     \<and> length (listed (snd (enumerate_jobs fs rootPath f maxDepth)))
          \<le> (case tree fs of None \<Rightarrow> 0 | Some n \<Rightarrow> count_dirs n)"
proof (cases "tree fs")
  case None
  then show ?thesis
    unfolding enumerate_jobs_def WalkDir_def walkFn_def by simp
next
  case (Some n)
  let ?fn = "walkFn fs rootPath f maxDepth"
  define init where "init = \<lparr>fileJobs = [], visitedDirs = (\<lambda>_. False), listed = []\<rparr>"
  have ok: "listing_ok n"
    using assms Some unfolding tree_ok_def by simp
  have "listed (snd (enumerate_jobs fs rootPath f maxDepth))
          = listed (snd (walkDir ?fn rootPath n init))"
    unfolding enumerate_jobs_def WalkDir_def Some init_def
    by (simp split: prod.splits)
  moreover have "adds_listed (under rootPath) (count_dirs n) init
                   (snd (walkDir ?fn rootPath n init))"
    using walk_lists(1) [OF ok] .
  ultimately show ?thesis
    unfolding adds_listed_def init_def Some by auto
qed

lemma include_main_go: "ShouldInclude default_filter ''main.go''"
  by (simp add: filter_eval)

lemma exclude_loop: "\<not> ShouldInclude default_filter ''loop''"
  by (simp add: filter_eval)

lemma exclude_link_name: "\<not> ShouldInclude default_filter ''a''"
  by (simp add: filter_eval)

lemma link_cycle_walk:
  "listed (snd (enumerate_jobs link_cycle ''root'' default_filter 0)) = [''root'']"
  "map relPath (fileJobs (snd (enumerate_jobs link_cycle ''root'' default_filter 0))) = [''main.go'']"
  "visitedDirs (snd (enumerate_jobs link_cycle ''root'' default_filter 0)) ''root''"
  by (simp_all add: walk_eval link_cycle_def include_main_go exclude_loop)

lemma two_links_walk:
  "fileJobs (snd (enumerate_jobs two_links ''root'' default_filter 0)) = []"
  "listed (snd (enumerate_jobs two_links ''root'' default_filter 0)) = [''root'']"
  by (simp_all add: walk_eval two_links_def exclude_link_name)

text \<open>
  C8 at a directory that lists the links \<^verbatim>\<open>a\<close> and \<^verbatim>\<open>b\<close>, both to the directory
  \<^verbatim>\<open>/target\<close>, and then the file \<^verbatim>\<open>main.go\<close>, which the filter passes. For \<^verbatim>\<open>a\<close> the
  callback records the target, and nothing below the link is visited, since \<^verbatim>\<open>WalkDir\<close>
  does not follow links. For \<^verbatim>\<open>b\<close> the target is recorded and the callback returns
  \<^verbatim>\<open>SkipDir\<close>; \<^verbatim>\<open>b\<close> is not a directory, so \<^verbatim>\<open>WalkDir\<close> ends its loop over \<^verbatim>\<open>root\<close>: not only
  the link is skipped, \<^verbatim>\<open>main.go\<close> is never visited and the traversal emits no job. With
  the one link \<^verbatim>\<open>loop\<close> before it, \<^verbatim>\<open>main.go\<close> is emitted.
\<close>

theorem second_link_drops_siblings:
  "ShouldInclude default_filter ''main.go''
   \<and> tree_ok two_links
   \<and> walkDir (walkFn two_links ''root'' default_filter 0) ''root/a'' Symlink
        \<lparr>fileJobs = [], visitedDirs = (\<lambda>path. False), listed = [''root'']\<rparr>
      = (Continue,
         \<lparr>fileJobs = [], visitedDirs = (\<lambda>path. False)(''/target'' := True), listed = [''root'']\<rparr>)
   \<and> walkDir (walkFn two_links ''root'' default_filter 0) ''root/b'' Symlink
        \<lparr>fileJobs = [], visitedDirs = (\<lambda>path. False)(''/target'' := True), listed = [''root'']\<rparr>
      = (SkipDir,
         \<lparr>fileJobs = [], visitedDirs = (\<lambda>path. False)(''/target'' := True), listed = [''root'']\<rparr>)
   \<and> fileJobs (snd (enumerate_jobs two_links ''root'' default_filter 0)) = []
   \<and> listed (snd (enumerate_jobs two_links ''root'' default_filter 0)) = [''root'']
   \<and> map relPath (fileJobs (snd (enumerate_jobs link_cycle ''root'' default_filter 0)))
       = [''main.go'']"
proof -
  have "tree_ok two_links"
    by (simp add: tree_ok_def two_links_def name_ok_def PathSeparator_def)
  moreover have "walkDir (walkFn two_links ''root'' default_filter 0) ''root/a'' Symlink
        \<lparr>fileJobs = [], visitedDirs = (\<lambda>path. False), listed = [''root'']\<rparr>
      = (Continue,
         \<lparr>fileJobs = [], visitedDirs = (\<lambda>path. False)(''/target'' := True), listed = [''root'']\<rparr>)"
    by (simp add: walkFn_def visit_entry_def Rel_def HasPrefix_def PathSeparator_def
        two_links_def exclude_link_name)
  moreover have "walkDir (walkFn two_links ''root'' default_filter 0) ''root/b'' Symlink
        \<lparr>fileJobs = [], visitedDirs = (\<lambda>path. False)(''/target'' := True), listed = [''root'']\<rparr>
      = (SkipDir,
         \<lparr>fileJobs = [], visitedDirs = (\<lambda>path. False)(''/target'' := True), listed = [''root'']\<rparr>)"
    by (simp add: walkFn_def two_links_def)
  ultimately show ?thesis
    using include_main_go two_links_walk link_cycle_walk(2) by blast
qed

lemma two_files_depth_1:
  "map relPath (fileJobs (snd (enumerate_jobs two_files ''root'' default_filter 1)))
     = [''a.txt'', ''sub/b.txt'']"
  by (simp add: walk_eval two_files_def include_sub_dummy_go include_sub_b_txt include_a_txt)

text \<open>
  C5 as stated fails: with \<^verbatim>\<open>maxDepth = 1\<close> and the default filter, the traversal of
  \<^verbatim>\<open>root/a.txt\<close>, \<^verbatim>\<open>root/sub/b.txt\<close> emits a job for both files. The directory \<^verbatim>\<open>sub\<close>
  has depth 1, which does not exceed \<^verbatim>\<open>maxDepth\<close>.
\<close>

theorem maxDepth_1_counterexample:
  "ShouldInclude default_filter ''a.txt''
   \<and> ShouldInclude default_filter ''sub/b.txt''
   \<and> map relPath (fileJobs (snd (enumerate_jobs two_files ''root'' default_filter 1)))
       = [''a.txt'', ''sub/b.txt'']"
  using include_a_txt include_sub_b_txt two_files_depth_1 by blast

text \<open>
  C5, as amended. A directory whose depth, the number of separators in its relative path
  plus one, exceeds a positive \<^verbatim>\<open>maxDepth\<close> is pruned with all below it: the traversal
  leaves it with the state unchanged. With \<^verbatim>\<open>maxDepth = 1\<close> and a filter that passes
  \<^verbatim>\<open>a.txt\<close>, \<^verbatim>\<open>sub/b.txt\<close> and the path \<^verbatim>\<open>sub/dummy.go\<close> tested for the directory \<^verbatim>\<open>sub\<close>,
  the tree \<^verbatim>\<open>root/a.txt\<close>, \<^verbatim>\<open>root/sub/b.txt\<close> gives a job for both files, and the tree that
  also holds \<^verbatim>\<open>root/sub/deep/c.txt\<close> gives the same two jobs.
\<close>

theorem maxDepth_prunes_deeper_directories:
  "(Rel rootPath path = Some rel \<and> rel \<noteq> ''.'' \<and> maxDepth > 0
      \<and> Count rel PathSeparator + 1 > maxDepth \<longrightarrow>
      walkDir (walkFn fs rootPath f maxDepth) path (Dir readErr entries) st = (Continue, st))
   \<and> (ShouldInclude f ''a.txt'' \<and> ShouldInclude f ''sub/b.txt''
        \<and> ShouldInclude f ''sub/dummy.go'' \<longrightarrow>
        map relPath (fileJobs (snd (enumerate_jobs two_files ''root'' f 1)))
          = [''a.txt'', ''sub/b.txt'']
        \<and> map relPath (fileJobs (snd (enumerate_jobs three_levels ''root'' f 1)))
          = [''a.txt'', ''sub/b.txt''])"
proof (intro conjI impI)
  assume "Rel rootPath path = Some rel \<and> rel \<noteq> ''.'' \<and> maxDepth > 0
      \<and> Count rel PathSeparator + 1 > maxDepth"
  then show "walkDir (walkFn fs rootPath f maxDepth) path (Dir readErr entries) st = (Continue, st)"
    by (simp add: walkFn_def visit_entry_def Let_def)
next
  assume a: "ShouldInclude f ''a.txt'' \<and> ShouldInclude f ''sub/b.txt''
        \<and> ShouldInclude f ''sub/dummy.go''"
  then show "map relPath (fileJobs (snd (enumerate_jobs two_files ''root'' f 1)))
          = [''a.txt'', ''sub/b.txt'']"
    by (simp add: walk_eval two_files_def)
  from a show "map relPath (fileJobs (snd (enumerate_jobs three_levels ''root'' f 1)))
          = [''a.txt'', ''sub/b.txt'']"
    by (simp add: walk_eval three_levels_def)
qed

theorem maxDepth_prunes_deeper_directories_witness:
  "walkDir (walkFn three_levels ''root'' default_filter 1) ''root/sub/deep''
       (Dir False [(''c.txt'', File)])
       \<lparr>fileJobs = [], visitedDirs = (\<lambda>path. False), listed = []\<rparr>
     = (Continue, \<lparr>fileJobs = [], visitedDirs = (\<lambda>path. False), listed = []\<rparr>)
   \<and> map relPath (fileJobs (snd (enumerate_jobs two_files ''root'' default_filter 1)))
       = [''a.txt'', ''sub/b.txt'']
   \<and> map relPath (fileJobs (snd (enumerate_jobs three_levels ''root'' default_filter 1)))
       = [''a.txt'', ''sub/b.txt'']"
proof -
  have rel: "Rel ''root'' ''root/sub/deep'' = Some ''sub/deep'' \<and> ''sub/deep'' \<noteq> ''.''
      \<and> (1 :: int) > 0 \<and> Count ''sub/deep'' PathSeparator + 1 > 1"
    by (simp add: Rel_def HasPrefix_def Count_def PathSeparator_def)
  have inc: "ShouldInclude default_filter ''a.txt'' \<and> ShouldInclude default_filter ''sub/b.txt''
        \<and> ShouldInclude default_filter ''sub/dummy.go''"
    using include_a_txt include_sub_b_txt include_sub_dummy_go by blast
  show ?thesis
    using maxDepth_prunes_deeper_directories
      [of "''root''" "''root/sub/deep''" "''sub/deep''" 1 three_levels default_filter
          False "[(''c.txt'', File)]"
          "\<lparr>fileJobs = [], visitedDirs = (\<lambda>path. False), listed = []\<rparr>"]
      rel inc
    by blast
qed

lemma ignoring_filter_fields:
  "excludePatterns ignoring_filter = map MatchString alwaysExclude"
  "allowedExts ignoring_filter e = (e \<in> set defaultExts)"
  "respectGitignore ignoring_filter = True"
  "gitignoreGlobs ignoring_filter =
     [glob_match [Super, Text ''/secret.txt''], glob_match [Super, Text ''/private/'', Super]]"
  by (simp_all add: ignoring_filter_def LoadGitignore_def ignore_file_def default_filter_fields
      TrimSpace_def isSpace_def HasPrefix_def HasSuffix_def TrimPrefix_def plain_glob_Compile_def
      plain_pattern_def)

lemma ignoring_filter_ShouldInclude:
  "ShouldInclude ignoring_filter path =
     (\<not> list_ex (\<lambda>r. MatchString r path) alwaysExclude
      \<and> \<not> glob_match [Super, Text ''/secret.txt''] path
      \<and> \<not> glob_match [Super, Text ''/private/'', Super] path
      \<and> (if Ext path = [] then commonNoExtFiles (Base path) else Ext path \<in> set defaultExts))"
  by (simp add: ShouldInclude_def ignoring_filter_fields match_loop_ex ToSlash_def list_ex_iff)

text \<open>
  C6 at an ignore file with the lines \<^verbatim>\<open>secret.txt\<close> and \<^verbatim>\<open>private/\<close>: the globs compiled
  are \<^verbatim>\<open>**/secret.txt\<close> and \<^verbatim>\<open>**/private/**\<close>, which need a separator before the name. The
  filter excludes \<^verbatim>\<open>sub/secret.txt\<close> and \<^verbatim>\<open>sub/private/key.txt\<close> and still includes
  \<^verbatim>\<open>secret.txt\<close> and \<^verbatim>\<open>private/key.txt\<close> at the root.
\<close>

theorem gitignore_misses_root_level:
  "fst (LoadGitignore plain_glob_Compile ignore_file default_filter) = ignoring_filter
   \<and> snd (LoadGitignore plain_glob_Compile ignore_file default_filter) = None
   \<and> ShouldInclude ignoring_filter ''secret.txt''
   \<and> \<not> ShouldInclude ignoring_filter ''sub/secret.txt''
   \<and> ShouldInclude ignoring_filter ''private/key.txt''
   \<and> \<not> ShouldInclude ignoring_filter ''sub/private/key.txt''"
proof -
  have "snd (LoadGitignore plain_glob_Compile ignore_file default_filter) = None"
    by (simp add: LoadGitignore_def ignore_file_def default_filter_fields)
  moreover have "ShouldInclude ignoring_filter ''secret.txt''"
    by (simp add: ignoring_filter_ShouldInclude alwaysExclude_def component_def ending_def
        MatchString_def Ext_def Base_def commonNoExtFiles_def defaultExts_def PathSeparator_def
        HasPrefix_def)
  moreover have "\<not> ShouldInclude ignoring_filter ''sub/secret.txt''"
    by (simp add: ignoring_filter_ShouldInclude HasPrefix_def)
  moreover have "ShouldInclude ignoring_filter ''private/key.txt''"
    by (simp add: ignoring_filter_ShouldInclude alwaysExclude_def component_def ending_def
        MatchString_def Ext_def Base_def commonNoExtFiles_def defaultExts_def PathSeparator_def
        HasPrefix_def)
  moreover have "\<not> ShouldInclude ignoring_filter ''sub/private/key.txt''"
    by (simp add: ignoring_filter_ShouldInclude HasPrefix_def)
  ultimately show ?thesis
    by (simp add: ignoring_filter_def)
qed


end
